theory Spec2Isabelle
  imports Complex_Main "HOL-Library.Word"
begin

section \<open>Heart-rate extraction (cegBPM.c)\<close>

text \<open>
  The sketch keeps its state in global variables; the model passes them around as a
  record.  \<open>uint32_t\<close> and \<open>uint16_t\<close> values are words of that width, so that
  subtraction of timestamps wraps and the narrowing cast truncates as in C.  Values of
  type \<open>float\<close> are idealised in this sketch as real numbers (no rounding, no
  infinities).  \<open>int\<close> is the unbounded integer.  The reading of \<open>millis()\<close>
  is an input of every function that calls it.
\<close>

type_synonym u16 = "16 word"
type_synonym u32 = "32 word"

definition REFRACT_MS :: u32 where "REFRACT_MS = 250"
definition RR_AVG_N :: nat where "RR_AVG_N = 5"
definition BPM_VALID_MIN :: int where "BPM_VALID_MIN = 40"
definition BPM_VALID_MAX :: int where "BPM_VALID_MAX = 200"
definition DC_ALPHA :: real where "DC_ALPHA = 0.995"
definition ENV_ALPHA :: real where "ENV_ALPHA = 0.3"
definition THRESH_ALPHA :: real where "THRESH_ALPHA = 0.01"
definition THRESH_GAIN :: real where "THRESH_GAIN = 1.5"

record ecg_state =
  dcMean :: real
  envEma :: real
  threshEnv :: real
  aboveThresh :: bool
  lastPeakMs :: u32
  rrBuf :: "u16 list"
  rrIdx :: nat
  rrFilled :: bool
  bpmCurrent :: int

text \<open>The globals as initialised, after \<open>setup\<close> has zeroed the buffer.\<close>

definition ecg_init :: ecg_state where
  "ecg_init = \<lparr>dcMean = 0, envEma = 0, threshEnv = 0, aboveThresh = False,
     lastPeakMs = 0, rrBuf = replicate 5 0, rrIdx = 0, rrFilled = False,
     bpmCurrent = 0\<rparr>"

datatype fault =
  Buffer_overrun \<comment> \<open>a write past the end of \<open>rrBuf\<close>\<close>

text \<open>C's \<open>round\<close>: to the nearest integer, halves away from zero.\<close>

definition cround :: "real \<Rightarrow> int" where
  "cround x = (if 0 \<le> x then \<lfloor>x + 1 / 2\<rfloor> else - \<lfloor>- x + 1 / 2\<rfloor>)"

text \<open>The summing loop \<open>for (i = 0; i < n; ++i) sum += rrBuf[i]\<close> over the first
  \<open>n\<close> cells, with the 32-bit accumulator.\<close>

fun sumRR :: "u16 list \<Rightarrow> u32 \<Rightarrow> u32" where
  "sumRR [] acc = acc"
| "sumRR (x # xs) acc = sumRR xs (acc + ucast x)"

text \<open>The first two lines of \<open>pushRR\<close>: the store into the ring and the
  advance of the index, which wraps to 0 and sets the flag.\<close>

definition storeRR :: "ecg_state \<Rightarrow> u16 \<Rightarrow> ecg_state" where
  "storeRR s rr =
     (let buf = (rrBuf s)[rrIdx s := rr];
          idx1 = rrIdx s + 1
      in if RR_AVG_N \<le> idx1
         then s\<lparr>rrBuf := buf, rrIdx := 0, rrFilled := True\<rparr>
         else s\<lparr>rrBuf := buf, rrIdx := idx1\<rparr>)"

text \<open>
  \<open>pushRR\<close>.  When the cells summed are all 0 the mean is 0 and the quotient
  \<open>60000.0f / rrAvg\<close> is +infinity, whose conversion to \<open>int\<close> C leaves
  undefined; the model takes the converted value to lie outside the valid range, so
  that the call returns with the estimate as it was.
\<close>

definition pushRR :: "ecg_state \<Rightarrow> u16 \<Rightarrow> fault + ecg_state" where
  "pushRR s rr =
     (if length (rrBuf s) \<le> rrIdx s then Inl Buffer_overrun
      else
        let s1 = storeRR s rr;
            n = (if rrFilled s1 then RR_AVG_N else rrIdx s1);
            sum = sumRR (take n (rrBuf s1)) 0
        in if 0 < n then
             (if sum = 0 then Inr s1
              else
                let rrAvg = real (unat sum) / real n;
                    bpm = cround (60000 / rrAvg)
                in if BPM_VALID_MIN \<le> bpm \<and> bpm \<le> BPM_VALID_MAX
                   then Inr (s1\<lparr>bpmCurrent := bpm\<rparr>)
                   else Inr s1)
           else Inr s1)"

text \<open>
  The array has \<open>RR_AVG_N\<close> cells and the index stays inside it; the intervals
  currently held are the cells the summing loop reads, and their mean is the quotient
  the code forms.
\<close>

definition ecg_wf :: "ecg_state \<Rightarrow> bool" where
  "ecg_wf s = (length (rrBuf s) = RR_AVG_N \<and> rrIdx s < RR_AVG_N)"

definition heldRR :: "ecg_state \<Rightarrow> u16 list" where
  "heldRR s = take (if rrFilled s then RR_AVG_N else rrIdx s) (rrBuf s)"

definition meanRR :: "u16 list \<Rightarrow> real" where
  "meanRR xs = real (sum_list (map unat xs)) / real (length xs)"

text \<open>
  Step 4 of \<open>ecgProcessSample\<close>: the edge test, the refractory test and the update of
  the peak time, given the comparison \<open>nowAbove\<close> of the envelope with the threshold
  and the reading \<open>nowMs\<close> of \<open>millis()\<close>.
\<close>

definition peakAccepted :: "ecg_state \<Rightarrow> bool \<Rightarrow> u32 \<Rightarrow> bool" where
  "peakAccepted s nowAbove nowMs =
     (nowAbove \<and> \<not> aboveThresh s \<and> REFRACT_MS \<le> nowMs - lastPeakMs s)"

definition detectPeak :: "ecg_state \<Rightarrow> bool \<Rightarrow> u32 \<Rightarrow> fault + ecg_state" where
  "detectPeak s nowAbove nowMs =
     (if nowAbove \<and> \<not> aboveThresh s then
        (if REFRACT_MS \<le> nowMs - lastPeakMs s then
           (let rr = (ucast (nowMs - lastPeakMs s) :: u16) in
            case (if lastPeakMs s \<noteq> 0 then pushRR s rr else Inr s) of
              Inl e \<Rightarrow> Inl e
            | Inr s1 \<Rightarrow> Inr (s1\<lparr>lastPeakMs := nowMs, aboveThresh := nowAbove\<rparr>))
         else Inr (s\<lparr>aboveThresh := nowAbove\<rparr>))
      else Inr (s\<lparr>aboveThresh := nowAbove\<rparr>))"

text \<open>Steps 1 to 3 of \<open>ecgProcessSample\<close>: the three filters and the comparison.\<close>

definition conditionSample :: "ecg_state \<Rightarrow> int \<Rightarrow> ecg_state \<times> bool" where
  "conditionSample s raw =
     (let dc = DC_ALPHA * dcMean s + (1 - DC_ALPHA) * real_of_int raw;
          xdc = real_of_int raw - dc;
          env = \<bar>xdc\<bar>;
          ee = ENV_ALPHA * envEma s + (1 - ENV_ALPHA) * env;
          te = THRESH_ALPHA * threshEnv s + (1 - THRESH_ALPHA) * ee;
          thr = te * THRESH_GAIN;
          nowAbove = (thr < ee)
      in (s\<lparr>dcMean := dc, envEma := ee, threshEnv := te\<rparr>, nowAbove))"

definition ecgProcessSample :: "ecg_state \<Rightarrow> int \<Rightarrow> u32 \<Rightarrow> fault + ecg_state" where
  "ecgProcessSample s raw nowMs =
     (case conditionSample s raw of (s1, nowAbove) \<Rightarrow> detectPeak s1 nowAbove nowMs)"

definition ecgGetBPM :: "ecg_state \<Rightarrow> int" where
  "ecgGetBPM s = bpmCurrent s"

text \<open>A run of the detector over a list of (comparison, time) pairs, stopping at a fault.\<close>

fun detectRun :: "ecg_state \<Rightarrow> (bool \<times> u32) list \<Rightarrow> fault + ecg_state" where
  "detectRun s [] = Inr s"
| "detectRun s ((a, t) # xs) =
     (case detectPeak s a t of Inl e \<Rightarrow> Inl e | Inr s1 \<Rightarrow> detectRun s1 xs)"

text \<open>The number of samples of a run at which a peak is accepted.\<close>

fun acceptedPeaks :: "ecg_state \<Rightarrow> (bool \<times> u32) list \<Rightarrow> nat" where
  "acceptedPeaks s [] = 0"
| "acceptedPeaks s ((a, t) # xs) =
     (case detectPeak s a t of
        Inl e \<Rightarrow> (if peakAccepted s a t then 1 else 0)
      | Inr s1 \<Rightarrow> (if peakAccepted s a t then 1 else 0) + acceptedPeaks s1 xs)"

text \<open>A run of the whole sample routine over (sample, time) pairs.\<close>

fun ecgRun :: "ecg_state \<Rightarrow> (int \<times> u32) list \<Rightarrow> fault + ecg_state" where
  "ecgRun s [] = Inr s"
| "ecgRun s ((raw, t) # xs) =
     (case ecgProcessSample s raw t of Inl e \<Rightarrow> Inl e | Inr s1 \<Rightarrow> ecgRun s1 xs)"



text \<open>
  The ring holds a history: \<open>hist\<close> lists the intervals pushed so far, the most
  recent first.  Before the ring is full the cells below the index are the history in
  the order of arrival; afterwards the cells below the index are the most recent ones
  and the cells from the index on are the older ones, the oldest at the index.
\<close>

definition holds_history :: "ecg_state \<Rightarrow> u16 list \<Rightarrow> bool" where
  "holds_history s hist =
     (ecg_wf s \<and>
      (if rrFilled s
       then 5 \<le> length hist \<and>
            rrBuf s = rev (take (rrIdx s) hist) @ rev (take (5 - rrIdx s) (drop (rrIdx s) hist))
       else rrIdx s = length hist \<and> take (rrIdx s) (rrBuf s) = rev hist))"

text \<open>
  The states in which nothing has been detected yet: both envelope filters are
  non-negative, the flag is down, and the peak time, the ring and the estimate are as
  initialised.
\<close>

definition quiet :: "ecg_state \<Rightarrow> bool" where
  "quiet s = (0 \<le> envEma s \<and> 0 \<le> threshEnv s \<and> \<not> aboveThresh s \<and> lastPeakMs s = 0
     \<and> rrBuf s = replicate 5 0 \<and> rrIdx s = 0 \<and> \<not> rrFilled s \<and> bpmCurrent s = 0)"

section \<open>Treadmill control (runArduino.c)\<close>

text \<open>
  The state variables of the second sketch.  What the sketch sends to the serial line
  and to the motor driver is returned as a list of events.  The calls \<open>readBPM()\<close>
  and \<open>millis()\<close> are inputs: every function takes the value \<open>bpm\<close> that
  \<open>readBPM()\<close> returned and the reading \<open>now\<close> of the millisecond counter.
\<close>

type_synonym u8 = "8 word"

subsection \<open>Single-precision arithmetic\<close>

text \<open>
  The values of type \<open>float\<close> of this sketch are binary32 numbers: \<open>F32 m e\<close> is
  the number \<open>m * 2 ^ e\<close>, and every operation rounds its exact result to 24
  significant bits, to the nearest, ties to the even significand.  The exponent is not
  bounded: there is no overflow to infinity, no subnormal number and no NaN, and the
  model is the binary32 operation as long as the magnitudes stay between \<open>2 ^ -126\<close>
  and \<open>2 ^ 128\<close>.
\<close>

datatype f32 = F32 int int

fun valof :: "f32 \<Rightarrow> real" where
  "valof (F32 m e) = (if 0 \<le> e then of_int m * 2 ^ nat e else of_int m / 2 ^ nat (- e))"

text \<open>The number of bits by which a significand exceeds 24 bits.\<close>

fun bits_over :: "nat \<Rightarrow> nat" where
  "bits_over a = (if a < 16777216 then 0 else Suc (bits_over (a div 2)))"

declare bits_over.simps [simp del]

definition round24 :: "int \<Rightarrow> int \<Rightarrow> f32" where
  "round24 m e =
     (let k = bits_over (nat \<bar>m\<bar>) in
      if k = 0 then F32 m e
      else
        let q = \<bar>m\<bar> div 2 ^ k;
            r = \<bar>m\<bar> mod 2 ^ k;
            half = 2 ^ (k - 1);
            q1 = (if r < half then q else if half < r then q + 1
                  else if even q then q else q + 1)
        in F32 (sgn m * q1) (e + int k))"

fun fmul :: "f32 \<Rightarrow> f32 \<Rightarrow> f32" where
  "fmul (F32 m1 e1) (F32 m2 e2) = round24 (m1 * m2) (e1 + e2)"

fun fadd :: "f32 \<Rightarrow> f32 \<Rightarrow> f32" where
  "fadd (F32 m1 e1) (F32 m2 e2) =
     (let e = min e1 e2
      in round24 (m1 * 2 ^ nat (e1 - e) + m2 * 2 ^ nat (e2 - e)) e)"

fun fneg :: "f32 \<Rightarrow> f32" where
  "fneg (F32 m e) = F32 (- m) e"

definition fsub :: "f32 \<Rightarrow> f32 \<Rightarrow> f32" where
  "fsub a b = fadd a (fneg b)"

text \<open>The conversion of an \<open>int\<close> to \<open>float\<close>.\<close>

definition float_of_int :: "int \<Rightarrow> f32" where
  "float_of_int i = round24 i 0"

subsection \<open>Parameters, state and operations\<close>

text \<open>
  \<open>0.6f\<close> is the binary32 number nearest to 0.6, \<open>10066330 / 2 ^ 24\<close>; 3.5 and
  1.5 are binary32 numbers.
\<close>

definition PWM_MIN :: int where "PWM_MIN = 70"
definition PWM_MAX :: int where "PWM_MAX = 255"
definition CTRL_PERIODMS :: u32 where "CTRL_PERIODMS = 1000"
definition HR_SMOOTH_A :: f32 where "HR_SMOOTH_A = F32 10066330 (- 24)"
definition KP :: f32 where "KP = F32 7 (- 1)"
definition HR_DEADBAND :: f32 where "HR_DEADBAND = F32 3 (- 1)"
definition HR_VALID_MIN :: int where "HR_VALID_MIN = 40"
definition HR_VALID_MAX :: int where "HR_VALID_MAX = 200"

record ctrl_state =
  setMode :: string
  motorPwm :: u8
  hrEma :: f32
  lastCtrlMs :: u32

datatype event =
  Motor_write u8 \<comment> \<open>direction pins forward, \<open>analogWrite\<close> of the duty\<close>
| Warn_invalid int \<comment> \<open>\<open>[WARN] Invalid BPM:\<close>\<close>
| Status_line int f32 u8 \<comment> \<open>\<open>BPM=.. (EMA=..) | PWM=..\<close>\<close>
| Ctrl_line f32 f32 int f32 int int \<comment> \<open>\<open>[CTRL] Target=..\<close>\<close>
| Idle_line int f32 u8 \<comment> \<open>\<open>[IDLE]\<close> line, followed by \<open>delay(500)\<close>\<close>
| Mode_rejected \<comment> \<open>the message asking for diet or training\<close>
| Mode_changed string
| Prompt

text \<open>Integer division of C, truncating towards zero.\<close>

definition cdiv :: "int \<Rightarrow> int \<Rightarrow> int" where
  "cdiv a b = sgn a * sgn b * (\<bar>a\<bar> div \<bar>b\<bar>)"

text \<open>
  \<open>map\<close> of the Arduino core library (not part of the repository), as its reference
  documents it: \<open>(x - in_min) * (out_max - out_min) / (in_max - in_min) + out_min\<close>
  in \<open>long\<close> arithmetic.
\<close>

definition map_arduino :: "int \<Rightarrow> int \<Rightarrow> int \<Rightarrow> int \<Rightarrow> int \<Rightarrow> int" where
  "map_arduino x in_min in_max out_min out_max =
     cdiv ((x - in_min) * (out_max - out_min)) (in_max - in_min) + out_min"

text \<open>\<open>readBPM\<close>, as a function of the value \<open>raw\<close> that \<open>analogRead\<close> returns.\<close>

definition readBPM :: "int \<Rightarrow> int" where
  "readBPM raw = map_arduino raw 0 1023 50 150"

definition clampT :: "int \<Rightarrow> int \<Rightarrow> int \<Rightarrow> int" where
  "clampT v lo hi = (if v < lo then lo else if hi < v then hi else v)"

definition motorWrite :: "ctrl_state \<Rightarrow> u8 \<Rightarrow> ctrl_state \<times> event list" where
  "motorWrite s pwm = (s\<lparr>motorPwm := pwm\<rparr>, [Motor_write pwm])"

definition controlHeartRateBand ::
  "ctrl_state \<Rightarrow> f32 \<Rightarrow> f32 \<Rightarrow> int \<Rightarrow> u32 \<Rightarrow> ctrl_state \<times> event list" where
  "controlHeartRateBand s targetLow targetHigh bpm now =
     (let valid = (HR_VALID_MIN \<le> bpm \<and> bpm \<le> HR_VALID_MAX) in
      if \<not> valid then (s, [Warn_invalid bpm])
      else
        let h0 = (if valof (hrEma s) \<le> 0 then float_of_int bpm else hrEma s);
            h = fadd (fmul HR_SMOOTH_A h0)
                  (fmul (fsub (F32 1 0) HR_SMOOTH_A) (float_of_int bpm));
            s1 = s\<lparr>hrEma := h\<rparr>
        in if now - lastCtrlMs s1 < CTRL_PERIODMS
           then (s1, [Status_line bpm h (motorPwm s1)])
           else
             let s2 = s1\<lparr>lastCtrlMs := now\<rparr>;
                 pwmDelta =
                   (if valof h < valof (fsub targetLow HR_DEADBAND)
                    then fmul KP (fsub targetLow h)
                    else if valof (fadd targetHigh HR_DEADBAND) < valof h
                    then fmul (fneg KP) (fsub h targetHigh)
                    else F32 0 0);
                 nextPwm = clampT (uint (motorPwm s2) + cround (valof pwmDelta)) PWM_MIN PWM_MAX
             in case motorWrite s2 (word_of_int nextPwm) of
                  (s3, ev) \<Rightarrow>
                    (s3, ev @ [Ctrl_line targetLow targetHigh bpm h
                                 (cround (valof pwmDelta)) nextPwm]))"

definition dietRun :: "ctrl_state \<Rightarrow> int \<Rightarrow> u32 \<Rightarrow> ctrl_state \<times> event list" where
  "dietRun s bpm now = controlHeartRateBand s (F32 60 0) (F32 70 0) bpm now"

definition trainingRun :: "ctrl_state \<Rightarrow> int \<Rightarrow> u32 \<Rightarrow> ctrl_state \<times> event list" where
  "trainingRun s bpm now = controlHeartRateBand s (F32 70 0) (F32 80 0) bpm now"

text \<open>The globals as initialised, and \<open>setup\<close>, which starts the motor at \<open>PWM_MIN\<close>.\<close>

definition ctrl_globals :: ctrl_state where
  "ctrl_globals = \<lparr>setMode = [], motorPwm = 0, hrEma = F32 0 0, lastCtrlMs = 0\<rparr>"

definition ctrl_setup :: "ctrl_state \<times> event list" where
  "ctrl_setup = (case motorWrite ctrl_globals (word_of_int PWM_MIN) of
              (s, ev) \<Rightarrow> (s, ev @ [Prompt]))"

text \<open>
  \<open>String::trim\<close> of the Arduino core library (not part of the repository): it removes
  leading and trailing characters for which \<open>isspace\<close> holds.
\<close>

definition isspace :: "char \<Rightarrow> bool" where
  "isspace c = (c = CHR '' '' \<or> c = CHR 0x09 \<or> c = CHR 0x0A \<or> c = CHR 0x0B
     \<or> c = CHR 0x0C \<or> c = CHR 0x0D)"

definition trim :: "string \<Rightarrow> string" where
  "trim s = rev (dropWhile isspace (rev (dropWhile isspace s)))"

text \<open>
  Part 1 of \<open>loop\<close>, the mode input.  \<open>serial\<close> is \<open>None\<close> when
  \<open>Serial.available()\<close> is 0, and otherwise the characters that
  \<open>readStringUntil('\n')\<close> returns.
\<close>

definition modeInput :: "ctrl_state \<Rightarrow> string option \<Rightarrow> ctrl_state \<times> event list" where
  "modeInput s serial =
     (case serial of
        None \<Rightarrow> (s, [])
      | Some line \<Rightarrow>
          (let m = trim line in
           if m \<noteq> ''diet'' \<and> m \<noteq> ''training''
           then (s\<lparr>setMode := []\<rparr>, [Mode_rejected])
           else (s\<lparr>setMode := m\<rparr>, [Mode_changed m])))"

text \<open>Part 2 of \<open>loop\<close>, the dispatch on the mode.\<close>

definition runMode :: "ctrl_state \<Rightarrow> int \<Rightarrow> u32 \<Rightarrow> ctrl_state \<times> event list" where
  "runMode s bpm now =
     (if setMode s = ''diet'' then dietRun s bpm now
      else if setMode s = ''training'' then trainingRun s bpm now
      else
        let s1 = (if HR_VALID_MIN \<le> bpm \<and> bpm \<le> HR_VALID_MAX
                  then s\<lparr>hrEma :=
                         fadd (fmul HR_SMOOTH_A
                                 (if valof (hrEma s) \<le> 0 then float_of_int bpm else hrEma s))
                           (fmul (fsub (F32 1 0) HR_SMOOTH_A) (float_of_int bpm))\<rparr>
                  else s)
        in (s1, [Idle_line bpm (hrEma s1) (motorPwm s1)]))"

definition loop :: "ctrl_state \<Rightarrow> string option \<times> int \<times> u32 \<Rightarrow> ctrl_state \<times> event list" where
  "loop s inp =
     (case inp of (serial, bpm, now) \<Rightarrow>
        (case modeInput s serial of
           (s1, ev1) \<Rightarrow>
             (case runMode s1 bpm now of (s2, ev2) \<Rightarrow> (s2, ev1 @ ev2))))"

text \<open>Iterations of \<open>loop\<close>, one per input triple.\<close>

fun ctrlRun :: "ctrl_state \<Rightarrow> (string option \<times> int \<times> u32) list \<Rightarrow> ctrl_state" where
  "ctrlRun s [] = s"
| "ctrlRun s (inp # inps) = ctrlRun (fst (loop s inp)) inps"


section \<open>The RR history and the validity gate\<close>

lemma list_update_Cons_numeral:
  "(x # xs)[numeral k := y] = x # xs[pred_numeral k := y]"
  by (simp add: numeral_eq_Suc)

lemma replicate_numeral_unfold:
  "replicate (numeral k) x = x # replicate (pred_numeral k) x"
  by (simp add: numeral_eq_Suc)

lemma sumRR_acc: "sumRR xs acc = acc + of_nat (sum_list (map unat xs))"
  by (induction xs arbitrary: acc) (simp_all add: add.assoc)

lemma sum_list_u16_bound: "sum_list (map unat (xs :: u16 list)) \<le> length xs * 65535"
proof (induction xs)
  case Nil
  then show ?case by simp
next
  case (Cons x xs)
  have "unat x < 2 ^ 16" using unsigned_less [of x] by simp
  then have "unat x \<le> 65535" by simp
  then show ?case using Cons.IH by simp
qed

lemma unat_sumRR:
  assumes "length xs \<le> 5"
  shows "unat (sumRR xs 0) = sum_list (map unat xs)"
proof -
  have "sum_list (map unat xs) \<le> length xs * 65535" by (rule sum_list_u16_bound)
  also have "\<dots> \<le> 5 * 65535" using assms by simp
  finally have "sum_list (map unat xs) < 2 ^ 32" by simp
  then have "unat (of_nat (sum_list (map unat xs)) :: u32) = sum_list (map unat xs)"
    by (simp add: unat_of_nat)
  then show ?thesis by (simp add: sumRR_acc)
qed

lemma sumRR_zero_iff:
  assumes "length xs \<le> 5"
  shows "sumRR xs 0 = 0 \<longleftrightarrow> sum_list (map unat xs) = 0"
  using unat_sumRR [OF assms] by (metis unat_eq_0)

lemma storeRR_wf: "ecg_wf s \<Longrightarrow> ecg_wf (storeRR s rr)"
  by (auto simp: storeRR_def ecg_wf_def Let_def RR_AVG_N_def)

lemma storeRR_bpm: "bpmCurrent (storeRR s rr) = bpmCurrent s"
  by (simp add: storeRR_def Let_def)

lemma storeRR_held_length:
  "ecg_wf s \<Longrightarrow> 0 < length (heldRR (storeRR s rr)) \<and> length (heldRR (storeRR s rr)) \<le> 5"
  by (auto simp: storeRR_def heldRR_def ecg_wf_def Let_def RR_AVG_N_def)

lemma storeRR_held_mem: "ecg_wf s \<Longrightarrow> rr \<in> set (heldRR (storeRR s rr))"
proof -
  assume wf: "ecg_wf s"
  define buf where "buf = (rrBuf s)[rrIdx s := rr]"
  have i: "rrIdx s < 5" and len: "length buf = 5"
    using wf by (simp_all add: ecg_wf_def RR_AVG_N_def buf_def)
  have at: "buf ! rrIdx s = rr" using i len by (simp add: buf_def)
  have "\<exists>n. heldRR (storeRR s rr) = take n buf \<and> rrIdx s < n \<and> n \<le> 5"
  proof (cases "RR_AVG_N \<le> rrIdx s + 1")
    case True
    then have "heldRR (storeRR s rr) = take 5 buf"
      by (simp add: storeRR_def heldRR_def Let_def RR_AVG_N_def buf_def)
    then show ?thesis using i by auto
  next
    case False
    then have "heldRR (storeRR s rr) = take (if rrFilled s then 5 else rrIdx s + 1) buf"
      by (simp add: storeRR_def heldRR_def Let_def RR_AVG_N_def buf_def)
    then show ?thesis using i False by (auto simp: RR_AVG_N_def)
  qed
  then obtain n where h: "heldRR (storeRR s rr) = take n buf" and n: "rrIdx s < n" "n \<le> 5"
    by blast
  have "take n buf ! rrIdx s = rr" using at n by simp
  moreover have "rrIdx s < length (take n buf)" using n len by simp
  ultimately show ?thesis unfolding h by (metis nth_mem)
qed

lemma pushRR_unfold:
  assumes wf: "ecg_wf s"
  shows "pushRR s rr =
    (if sum_list (map unat (heldRR (storeRR s rr))) = 0 then Inr (storeRR s rr)
     else if BPM_VALID_MIN \<le> cround (60000 / meanRR (heldRR (storeRR s rr)))
            \<and> cround (60000 / meanRR (heldRR (storeRR s rr))) \<le> BPM_VALID_MAX
          then Inr ((storeRR s rr)\<lparr>bpmCurrent := cround (60000 / meanRR (heldRR (storeRR s rr)))\<rparr>)
          else Inr (storeRR s rr))"
proof -
  define s1 where "s1 = storeRR s rr"
  define n where "n = (if rrFilled s1 then RR_AVG_N else rrIdx s1)"
  have held: "heldRR s1 = take n (rrBuf s1)" by (simp add: heldRR_def n_def)
  have lh: "0 < length (heldRR s1)" "length (heldRR s1) \<le> 5"
    using storeRR_held_length [OF wf, of rr] by (simp_all add: s1_def)
  have wf1: "ecg_wf s1" using wf by (simp add: s1_def storeRR_wf)
  have ln: "length (heldRR s1) = n"
    using wf1 by (auto simp: held n_def ecg_wf_def RR_AVG_N_def)
  have npos: "0 < n" using lh ln by simp
  have un: "unat (sumRR (take n (rrBuf s1)) 0) = sum_list (map unat (heldRR s1))"
    using unat_sumRR [OF lh(2)] by (simp only: held)
  have z: "sumRR (take n (rrBuf s1)) 0 = 0 \<longleftrightarrow> sum_list (map unat (heldRR s1)) = 0"
    using sumRR_zero_iff [OF lh(2)] by (simp only: held)
  have mean: "real (unat (sumRR (take n (rrBuf s1)) 0)) / real n = meanRR (heldRR s1)"
    by (simp only: meanRR_def un ln)
  have nover: "\<not> length (rrBuf s) \<le> rrIdx s" using wf by (simp add: ecg_wf_def)
  have "pushRR s rr =
    (if sumRR (take n (rrBuf s1)) 0 = 0 then Inr s1
     else if BPM_VALID_MIN \<le> cround (60000 / (real (unat (sumRR (take n (rrBuf s1)) 0)) / real n))
            \<and> cround (60000 / (real (unat (sumRR (take n (rrBuf s1)) 0)) / real n)) \<le> BPM_VALID_MAX
          then Inr (s1\<lparr>bpmCurrent := cround (60000 / (real (unat (sumRR (take n (rrBuf s1)) 0)) / real n))\<rparr>)
          else Inr s1)"
    using nover npos
    unfolding pushRR_def Let_def n_def s1_def
    by (simp only: if_False if_True)
  then have "pushRR s rr =
    (if sum_list (map unat (heldRR s1)) = 0 then Inr s1
     else if BPM_VALID_MIN \<le> cround (60000 / meanRR (heldRR s1))
            \<and> cround (60000 / meanRR (heldRR s1)) \<le> BPM_VALID_MAX
          then Inr (s1\<lparr>bpmCurrent := cround (60000 / meanRR (heldRR s1))\<rparr>)
          else Inr s1)"
    by (simp only: mean z)
  then show ?thesis by (simp only: s1_def)
qed


lemma zero_sum_not_valid:
  assumes "sum_list (map unat xs) = 0"
  shows "\<not> (BPM_VALID_MIN \<le> cround (60000 / meanRR xs))"
proof -
  have "meanRR xs = 0" using assms by (simp only: meanRR_def of_nat_0 div_0)
  then have "cround (60000 / meanRR xs) = 0" by (simp add: cround_def)
  then show ?thesis by (simp add: BPM_VALID_MIN_def)
qed

lemma pushRR_result:
  assumes wf: "ecg_wf s"
  shows "pushRR s rr =
    Inr (if BPM_VALID_MIN \<le> cround (60000 / meanRR (heldRR (storeRR s rr)))
            \<and> cround (60000 / meanRR (heldRR (storeRR s rr))) \<le> BPM_VALID_MAX
         then (storeRR s rr)\<lparr>bpmCurrent := cround (60000 / meanRR (heldRR (storeRR s rr)))\<rparr>
         else storeRR s rr)"
proof (cases "sum_list (map unat (heldRR (storeRR s rr))) = 0")
  case True
  have "\<not> (BPM_VALID_MIN \<le> cround (60000 / meanRR (heldRR (storeRR s rr)))
            \<and> cround (60000 / meanRR (heldRR (storeRR s rr))) \<le> BPM_VALID_MAX)"
    using zero_sum_not_valid [OF True] by blast
  then show ?thesis unfolding pushRR_unfold [OF wf] using True by auto
next
  case False
  show ?thesis
    unfolding pushRR_unfold [OF wf] using False
    by (simp only: if_False if_distrib [of Inr])
qed

lemma pushRR_total:
  assumes wf: "ecg_wf s"
  shows "\<exists>s'. pushRR s rr = Inr s'"
  unfolding pushRR_result [OF wf] by blast

lemma pushRR_Inr:
  assumes wf: "ecg_wf s" and r: "pushRR s rr = Inr s'"
  shows "ecg_wf s' \<and> heldRR s' = heldRR (storeRR s rr) \<and>
    bpmCurrent s' =
      (if BPM_VALID_MIN \<le> cround (60000 / meanRR (heldRR s')) \<and>
          cround (60000 / meanRR (heldRR s')) \<le> BPM_VALID_MAX
       then cround (60000 / meanRR (heldRR s')) else bpmCurrent s)"
proof -
  have hs: "heldRR (s1\<lparr>bpmCurrent := b\<rparr>) = heldRR s1" for b s1 by (simp add: heldRR_def)
  have ws: "ecg_wf (s1\<lparr>bpmCurrent := b\<rparr>) = ecg_wf s1" for b s1 by (simp add: ecg_wf_def)
  show ?thesis
  proof (cases "BPM_VALID_MIN \<le> cround (60000 / meanRR (heldRR (storeRR s rr)))
            \<and> cround (60000 / meanRR (heldRR (storeRR s rr))) \<le> BPM_VALID_MAX")
    case True
    then have "s' = (storeRR s rr)\<lparr>bpmCurrent := cround (60000 / meanRR (heldRR (storeRR s rr)))\<rparr>"
      using r unfolding pushRR_result [OF wf] by (simp only: if_True) simp
    then show ?thesis using True storeRR_wf [OF wf, of rr] by (simp add: hs ws)
  next
    case False
    then have "s' = storeRR s rr"
      using r unfolding pushRR_result [OF wf] by (simp only: if_False) simp
    then show ?thesis using False storeRR_wf [OF wf, of rr] storeRR_bpm [of s rr] by auto
  qed
qed

text \<open>The store, the cells then held and their mean, written out.\<close>

lemma storeRR_explicit:
  assumes "ecg_wf s"
  shows "storeRR s rr = s\<lparr>rrBuf := (rrBuf s)[rrIdx s := rr],
      rrIdx := (if rrIdx s = 4 then 0 else rrIdx s + 1),
      rrFilled := (rrFilled s \<or> rrIdx s = 4)\<rparr>"
proof -
  have "rrIdx s < 5" using assms by (simp add: ecg_wf_def RR_AVG_N_def)
  then show ?thesis by (cases "rrIdx s = 4") (simp_all add: storeRR_def Let_def RR_AVG_N_def)
qed

lemma heldRR_store_explicit:
  assumes "ecg_wf s"
  shows "heldRR (storeRR s rr) =
      take (if rrFilled s \<or> rrIdx s = 4 then 5 else rrIdx s + 1) ((rrBuf s)[rrIdx s := rr])"
  unfolding storeRR_explicit [OF assms] by (simp add: heldRR_def RR_AVG_N_def)

lemma meanRR_store_explicit:
  assumes "ecg_wf s"
  defines "n \<equiv> (if rrFilled s \<or> rrIdx s = 4 then 5 else rrIdx s + 1)"
  shows "meanRR (heldRR (storeRR s rr)) =
      real (sum_list (map unat (take n ((rrBuf s)[rrIdx s := rr])))) / real n"
proof -
  have "rrIdx s < 5" "length (rrBuf s) = 5" using assms(1) by (simp_all add: ecg_wf_def RR_AVG_N_def)
  then have "length (take n ((rrBuf s)[rrIdx s := rr])) = n" by (simp add: n_def)
  then show ?thesis
    unfolding heldRR_store_explicit [OF assms(1)] n_def [symmetric] by (simp only: meanRR_def)
qed

text \<open>
  C3: on a state whose ring has its five cells and whose index is below 5, every call
  of \<open>pushRR\<close> returns: it stores the interval at the index, advances the index
  (wrapping to 0 and setting the flag), and, with \<open>bpm\<close> the rounded quotient of 60000
  by the mean of the cells then held, overwrites the exposed estimate with \<open>bpm\<close> if
  the cells are not all 0 and \<open>bpm\<close> lies in [40, 200], and leaves it exactly
  as it was otherwise.  So the estimate keeps its value or takes one in [40, 200], a
  mean implying 600 bpm leaves it as it was, and \<open>ecgGetBPM\<close> returns it.
\<close>

theorem pushRR_validity_gate:
  assumes "ecg_wf s"
  shows "let buf = (rrBuf s)[rrIdx s := rr];
             full = (rrFilled s \<or> rrIdx s = 4);
             n = (if full then 5 else rrIdx s + 1);
             total = sum_list (map unat (take n buf));
             bpm = cround (60000 / (real total / real n));
             s' = s\<lparr>rrBuf := buf, rrIdx := (if rrIdx s = 4 then 0 else rrIdx s + 1),
                    rrFilled := full,
                    bpmCurrent := (if total \<noteq> 0 \<and> 40 \<le> bpm \<and> bpm \<le> 200 then bpm
                                   else bpmCurrent s)\<rparr>
         in pushRR s rr = Inr s' \<and> heldRR s' = take n buf \<and> ecgGetBPM s' = bpmCurrent s' \<and>
            (bpmCurrent s' = bpmCurrent s \<or> (40 \<le> bpmCurrent s' \<and> bpmCurrent s' \<le> 200)) \<and>
            (bpm = 600 \<longrightarrow> bpmCurrent s' = bpmCurrent s)"
proof -
  define buf where "buf = (rrBuf s)[rrIdx s := rr]"
  define full where "full = (rrFilled s \<or> rrIdx s = 4)"
  define n where "n = (if full then 5 else rrIdx s + 1)"
  define total where "total = sum_list (map unat (take n buf))"
  define bpm where "bpm = cround (60000 / (real total / real n))"
  define s1 where "s1 = s\<lparr>rrBuf := buf, rrIdx := (if rrIdx s = 4 then 0 else rrIdx s + 1),
                    rrFilled := full\<rparr>"
  define s' where "s' = s1\<lparr>bpmCurrent := (if total \<noteq> 0 \<and> 40 \<le> bpm \<and> bpm \<le> 200 then bpm
                                   else bpmCurrent s)\<rparr>"
  have st: "storeRR s rr = s1"
    unfolding s1_def buf_def full_def by (rule storeRR_explicit [OF assms])
  have held: "heldRR s1 = take n buf"
    using heldRR_store_explicit [OF assms, of rr] unfolding st n_def full_def buf_def .
  have mean: "meanRR (heldRR s1) = real total / real n"
    using meanRR_store_explicit [OF assms, of rr] unfolding st total_def n_def full_def buf_def .
  have tot: "sum_list (map unat (heldRR s1)) = total" by (simp only: held total_def)
  have b1: "bpmCurrent s1 = bpmCurrent s" by (simp add: s1_def)
  have z: "\<not> (40 \<le> bpm)" if "total = 0"
    using zero_sum_not_valid [of "heldRR s1"] that
    unfolding tot mean bpm_def [symmetric] by (simp add: BPM_VALID_MIN_def)
  have push: "pushRR s rr = Inr s'"
  proof (cases "40 \<le> bpm \<and> bpm \<le> 200")
    case True
    then have "total \<noteq> 0" using z by blast
    then show ?thesis
      using True
      unfolding pushRR_result [OF assms] st mean bpm_def [symmetric] s'_def
      by (simp add: BPM_VALID_MIN_def BPM_VALID_MAX_def)
  next
    case False
    then have "s' = s1" unfolding s'_def using b1 by auto
    then show ?thesis
      using False
      unfolding pushRR_result [OF assms] st mean bpm_def [symmetric]
      by (auto simp: BPM_VALID_MIN_def BPM_VALID_MAX_def)
  qed
  have "heldRR s' = heldRR s1" by (simp add: s'_def heldRR_def)
  then have h': "heldRR s' = take n buf" using held by simp
  have g: "ecgGetBPM s' = bpmCurrent s'" by (simp add: ecgGetBPM_def)
  have rng: "bpmCurrent s' = bpmCurrent s \<or> (40 \<le> bpmCurrent s' \<and> bpmCurrent s' \<le> 200)"
    by (simp add: s'_def)
  have six: "bpm = 600 \<longrightarrow> bpmCurrent s' = bpmCurrent s" by (simp add: s'_def)
  have "pushRR s rr = Inr s' \<and> heldRR s' = take n buf \<and> ecgGetBPM s' = bpmCurrent s' \<and>
            (bpmCurrent s' = bpmCurrent s \<or> (40 \<le> bpmCurrent s' \<and> bpmCurrent s' \<le> 200)) \<and>
            (bpm = 600 \<longrightarrow> bpmCurrent s' = bpmCurrent s)"
    using push h' g rng six by blast
  then show ?thesis
    unfolding Let_def s'_def s1_def bpm_def total_def n_def full_def buf_def by simp
qed

theorem pushRR_validity_gate_witness:
  "ecg_wf (ecg_init\<lparr>bpmCurrent := 72\<rparr>) \<and>
   pushRR (ecg_init\<lparr>bpmCurrent := 72\<rparr>) 800 =
     Inr (ecg_init\<lparr>rrBuf := [800, 0, 0, 0, 0], rrIdx := 1, bpmCurrent := 75\<rparr>) \<and>
   pushRR (ecg_init\<lparr>bpmCurrent := 72\<rparr>) 100 =
     Inr (ecg_init\<lparr>rrBuf := [100, 0, 0, 0, 0], rrIdx := 1, bpmCurrent := 72\<rparr>) \<and>
   cround (60000 / (real (sum_list (map unat (take 1 [100 :: u16, 0, 0, 0, 0]))) / real 1)) = 600 \<and>
   pushRR (ecg_init\<lparr>bpmCurrent := 72\<rparr>) 0 =
     Inr (ecg_init\<lparr>rrBuf := [0, 0, 0, 0, 0], rrIdx := 1, bpmCurrent := 72\<rparr>)"
proof -
  have wf: "ecg_wf (ecg_init\<lparr>bpmCurrent := 72\<rparr>)"
    by (simp add: ecg_wf_def ecg_init_def RR_AVG_N_def)
  have a: "pushRR (ecg_init\<lparr>bpmCurrent := 72\<rparr>) 800 =
     Inr (ecg_init\<lparr>rrBuf := [800, 0, 0, 0, 0], rrIdx := 1, bpmCurrent := 75\<rparr>)"
    using pushRR_validity_gate [OF wf, of 800]
    by (simp add: Let_def ecg_init_def cround_def replicate_numeral_unfold)
  have b: "pushRR (ecg_init\<lparr>bpmCurrent := 72\<rparr>) 100 =
     Inr (ecg_init\<lparr>rrBuf := [100, 0, 0, 0, 0], rrIdx := 1, bpmCurrent := 72\<rparr>)"
    using pushRR_validity_gate [OF wf, of 100]
    by (simp add: Let_def ecg_init_def cround_def replicate_numeral_unfold)
  have c: "pushRR (ecg_init\<lparr>bpmCurrent := 72\<rparr>) 0 =
     Inr (ecg_init\<lparr>rrBuf := [0, 0, 0, 0, 0], rrIdx := 1, bpmCurrent := 72\<rparr>)"
    using pushRR_validity_gate [OF wf, of 0]
    by (simp add: Let_def ecg_init_def cround_def replicate_numeral_unfold)
  have m: "cround (60000 / (real (sum_list (map unat (take 1 [100 :: u16, 0, 0, 0, 0]))) / real 1)) = 600"
    by (simp add: cround_def)
  show ?thesis using wf a b c m by blast
qed

section \<open>The envelope never crosses the threshold\<close>

text \<open>
  The threshold filter weights the new envelope value by \<open>1 - THRESH_ALPHA = 0.99\<close>
  and the gain is 1.5, so the threshold is at least 1.485 times the envelope it is
  compared with: from the initial state the comparison \<open>envEma > thr\<close> is false at
  every sample.
\<close>

lemma conditionSample_never_above:
  assumes "0 \<le> envEma s" and "0 \<le> threshEnv s"
  shows "\<not> snd (conditionSample s raw)"
    and "0 \<le> envEma (fst (conditionSample s raw))"
    and "0 \<le> threshEnv (fst (conditionSample s raw))"
proof -
  define env where "env = \<bar>real_of_int raw - (DC_ALPHA * dcMean s + (1 - DC_ALPHA) * real_of_int raw)\<bar>"
  define ee where "ee = ENV_ALPHA * envEma s + (1 - ENV_ALPHA) * env"
  define te where "te = THRESH_ALPHA * threshEnv s + (1 - THRESH_ALPHA) * ee"
  have env0: "0 \<le> env" by (simp add: env_def)
  have ee0: "0 \<le> ee" using assms(1) env0 by (simp add: ee_def ENV_ALPHA_def)
  have te0: "0 \<le> te" using assms(2) ee0 by (simp add: te_def THRESH_ALPHA_def)
  have "99 / 100 * ee \<le> te" using assms(2) by (simp add: te_def THRESH_ALPHA_def)
  then have "ee \<le> te * THRESH_GAIN" using ee0 by (simp add: THRESH_GAIN_def)
  then have na: "\<not> te * THRESH_GAIN < ee" by simp
  have c: "conditionSample s raw = (s\<lparr>dcMean := DC_ALPHA * dcMean s + (1 - DC_ALPHA) * real_of_int raw,
      envEma := ee, threshEnv := te\<rparr>, te * THRESH_GAIN < ee)"
    by (simp add: conditionSample_def Let_def ee_def te_def env_def)
  show "\<not> snd (conditionSample s raw)" using na by (simp add: c)
  show "0 \<le> envEma (fst (conditionSample s raw))" using ee0 by (simp add: c)
  show "0 \<le> threshEnv (fst (conditionSample s raw))" using te0 by (simp add: c)
qed

lemma conditionSample_frame:
  "aboveThresh (fst (conditionSample s raw)) = aboveThresh s"
  "lastPeakMs (fst (conditionSample s raw)) = lastPeakMs s"
  "rrBuf (fst (conditionSample s raw)) = rrBuf s"
  "rrIdx (fst (conditionSample s raw)) = rrIdx s"
  "rrFilled (fst (conditionSample s raw)) = rrFilled s"
  "bpmCurrent (fst (conditionSample s raw)) = bpmCurrent s"
  by (simp_all add: conditionSample_def Let_def)

lemma ecgProcessSample_quiet:
  assumes "quiet s"
  shows "\<exists>s'. ecgProcessSample s raw t = Inr s' \<and> quiet s'"
proof -
  obtain s1 a where c: "conditionSample s raw = (s1, a)" by (cases "conditionSample s raw")
  have e: "0 \<le> envEma s" "0 \<le> threshEnv s" using assms by (simp_all add: quiet_def)
  have na: "\<not> a" using conditionSample_never_above(1) [OF e, of raw] c by simp
  have q1: "quiet s1"
    using conditionSample_never_above(2,3) [OF e, of raw] conditionSample_frame [of s raw] assms c
    by (simp add: quiet_def)
  have "detectPeak s1 a t = Inr (s1\<lparr>aboveThresh := a\<rparr>)"
    using na by (simp add: detectPeak_def)
  moreover have "quiet (s1\<lparr>aboveThresh := a\<rparr>)" using q1 na by (simp add: quiet_def)
  ultimately show ?thesis by (simp add: ecgProcessSample_def c)
qed

lemma ecgRun_quiet:
  "quiet s \<Longrightarrow> \<exists>s'. ecgRun s xs = Inr s' \<and> quiet s'"
proof (induction xs arbitrary: s)
  case Nil
  then show ?case by simp
next
  case (Cons x xs)
  obtain raw t where x: "x = (raw, t)" by (cases x)
  from ecgProcessSample_quiet [OF Cons.prems, of raw t]
  obtain s1 where s1: "ecgProcessSample s raw t = Inr s1" "quiet s1" by blast
  from Cons.IH [OF s1(2)] show ?case using x s1(1) by simp
qed

lemma quiet_init: "quiet ecg_init"
  by (simp add: quiet_def ecg_init_def)


lemma detector_never_fires:
  "\<exists>s'. ecgRun ecg_init xs = Inr s' \<and> ecgGetBPM s' = 0 \<and> lastPeakMs s' = 0
     \<and> rrBuf s' = rrBuf ecg_init"
  using ecgRun_quiet [OF quiet_init, of xs] by (auto simp: quiet_def ecgGetBPM_def ecg_init_def)



section \<open>The edge and refractory logic\<close>

text \<open>
  The lemmas of this section are about step 4 of the sample routine alone, for an
  arbitrary comparison \<open>nowAbove\<close>.  By the previous section the routine as it stands
  never passes \<open>True\<close> to this step.
\<close>

lemmas ecg_eval = detectPeak_def pushRR_def storeRR_def peakAccepted_def REFRACT_MS_def
  RR_AVG_N_def BPM_VALID_MIN_def BPM_VALID_MAX_def cround_def ecg_init_def Let_def
  list_update_Cons_numeral replicate_numeral_unfold

lemma detectPeak_flag:
  "detectPeak s a t = Inr s' \<Longrightarrow> aboveThresh s' = a"
  by (auto simp: detectPeak_def Let_def split: if_splits sum.splits)

lemma detectPeak_dropped:
  "\<not> peakAccepted s a t \<Longrightarrow> detectPeak s a t = Inr (s\<lparr>aboveThresh := a\<rparr>)"
  by (auto simp: detectPeak_def peakAccepted_def)

lemma detectPeak_accepted:
  "peakAccepted s a t \<Longrightarrow> detectPeak s a t = Inr s' \<Longrightarrow> lastPeakMs s' = t"
  by (auto simp: detectPeak_def peakAccepted_def Let_def split: if_splits sum.splits)

lemma detectPeak_first:
  assumes "lastPeakMs s = 0" and "peakAccepted s a t"
  shows "detectPeak s a t = Inr (s\<lparr>lastPeakMs := t, aboveThresh := a\<rparr>)"
  using assms by (simp add: detectPeak_def peakAccepted_def)

lemma detectPeak_later:
  assumes "lastPeakMs s \<noteq> 0" and "peakAccepted s a t"
  shows "detectPeak s a t =
    (case pushRR s (ucast (t - lastPeakMs s)) of
       Inl e \<Rightarrow> Inl e
     | Inr s1 \<Rightarrow> Inr (s1\<lparr>lastPeakMs := t, aboveThresh := a\<rparr>))"
  using assms by (auto simp: detectPeak_def peakAccepted_def split: sum.splits)

lemma startup_lockout:
  assumes "lastPeakMs s = 0" and "t < REFRACT_MS"
  shows "\<not> peakAccepted s a t"
  using assms by (auto simp: peakAccepted_def)

lemma first_peak_nonzero:
  assumes "lastPeakMs s = 0" and "peakAccepted s a t"
  shows "t \<noteq> 0"
  using assms by (auto simp: peakAccepted_def REFRACT_MS_def)

lemma rr_not_truncated:
  fixes d :: u32
  assumes "REFRACT_MS \<le> d" and "unat d < 65536"
  shows "unat (ucast d :: u16) = unat d" and "(250 :: u16) \<le> ucast d"
proof -
  show u: "unat (ucast d :: u16) = unat d"
    using assms(2) by (simp add: unsigned_ucast_eq take_bit_nat_eq_self)
  have "250 \<le> unat d" using assms(1) by (simp add: REFRACT_MS_def word_le_nat_alt)
  then show "(250 :: u16) \<le> ucast d" using u by (simp add: word_le_nat_alt)
qed


lemma excursion_no_peak:
  "aboveThresh s \<Longrightarrow> \<forall>x \<in> set xs. fst x \<Longrightarrow> acceptedPeaks s xs = 0"
proof (induction xs arbitrary: s)
  case Nil
  then show ?case by simp
next
  case (Cons x xs)
  obtain a t where x: "x = (a, t)" by (cases x)
  from Cons.prems x have a: "a" by simp
  have np: "\<not> peakAccepted s a t" using Cons.prems(1) by (simp add: peakAccepted_def)
  have "acceptedPeaks (s\<lparr>aboveThresh := a\<rparr>) xs = 0"
    using Cons.IH [of "s\<lparr>aboveThresh := a\<rparr>"] Cons.prems a by simp
  then show ?case using x np by (simp add: detectPeak_dropped)
qed

lemma excursion_at_most_one:
  assumes "\<forall>x \<in> set xs. fst x"
  shows "acceptedPeaks s xs \<le> 1"
proof (cases xs)
  case Nil
  then show ?thesis by simp
next
  case (Cons x ys)
  obtain a t where x: "x = (a, t)" by (cases x)
  from assms Cons x have a: "a" and ys: "\<forall>y \<in> set ys. fst y" by simp_all
  show ?thesis
  proof (cases "detectPeak s a t")
    case (Inl e)
    then show ?thesis using Cons x by simp
  next
    case (Inr s1)
    then have "aboveThresh s1" using detectPeak_flag a by blast
    then have "acceptedPeaks s1 ys = 0" using ys by (rule excursion_no_peak)
    then show ?thesis using Cons x Inr by simp
  qed
qed

lemma not_refract_50: "\<not> REFRACT_MS \<le> t + 50 - t"
  by (simp add: REFRACT_MS_def)

lemma two_pulses_first_accepted:
  assumes acc: "peakAccepted s True t"
  shows "acceptedPeaks s [(True, t), (False, u), (True, t + 50)] = 1"
proof (cases "detectPeak s True t")
  case (Inl e)
  then show ?thesis using acc by simp
next
  case (Inr s1)
  have l: "lastPeakMs s1 = t" using acc Inr by (rule detectPeak_accepted)
  have n2: "\<not> peakAccepted s1 False u" by (simp add: peakAccepted_def)
  have d2: "detectPeak s1 False u = Inr (s1\<lparr>aboveThresh := False\<rparr>)"
    using n2 by (rule detectPeak_dropped)
  have n3: "\<not> peakAccepted (s1\<lparr>aboveThresh := False\<rparr>) True (t + 50)"
    using l not_refract_50 [of t] by (simp add: peakAccepted_def)
  have d3: "detectPeak (s1\<lparr>aboveThresh := False\<rparr>) True (t + 50)
      = Inr (s1\<lparr>aboveThresh := False, aboveThresh := True\<rparr>)"
    using detectPeak_dropped [OF n3] by simp
  show ?thesis using acc Inr n2 d2 n3 d3 by simp
qed

lemma two_pulses_first_dropped:
  assumes nacc: "\<not> peakAccepted s True t"
  shows "acceptedPeaks s [(True, t), (False, u), (True, t + 50)] \<le> 1"
proof -
  have d1: "detectPeak s True t = Inr (s\<lparr>aboveThresh := True\<rparr>)"
    using nacc by (rule detectPeak_dropped)
  have n2: "\<not> peakAccepted (s\<lparr>aboveThresh := True\<rparr>) False u" by (simp add: peakAccepted_def)
  have d2: "detectPeak (s\<lparr>aboveThresh := True\<rparr>) False u = Inr (s\<lparr>aboveThresh := False\<rparr>)"
    using detectPeak_dropped [OF n2] by simp
  show ?thesis using nacc d1 n2 d2 by (simp split: sum.splits)
qed

text \<open>
  A sample is accepted as a peak only on a rising edge at which the 32-bit difference
  between the time and the last peak time is at least 250 ms, and an accepted peak
  makes its time the last peak time; a sample that is not accepted changes nothing but
  the flag; a run of samples that all lie above the threshold has at most one accepted
  peak; and two rising edges 50 ms apart give at most one accepted peak, exactly one
  when the first of them comes at least 250 ms after the last peak time.
\<close>

lemma refractory_gate:
  "(peakAccepted s a t \<longrightarrow> a \<and> \<not> aboveThresh s \<and> 250 \<le> unat (t - lastPeakMs s)) \<and>
   (\<forall>s'. detectPeak s a t = Inr s' \<longrightarrow>
      aboveThresh s' = a \<and> (peakAccepted s a t \<longrightarrow> lastPeakMs s' = t)) \<and>
   (\<not> peakAccepted s a t \<longrightarrow> detectPeak s a t = Inr (s\<lparr>aboveThresh := a\<rparr>)) \<and>
   ((\<forall>x \<in> set xs. fst x) \<longrightarrow> acceptedPeaks s xs \<le> 1) \<and>
   (\<not> aboveThresh s \<longrightarrow>
      acceptedPeaks s [(True, t), (False, u), (True, t + 50)] \<le> 1 \<and>
      (REFRACT_MS \<le> t - lastPeakMs s \<longrightarrow>
         acceptedPeaks s [(True, t), (False, u), (True, t + 50)] = 1))"
proof -
  have 1: "peakAccepted s a t \<longrightarrow> a \<and> \<not> aboveThresh s \<and> 250 \<le> unat (t - lastPeakMs s)"
    by (simp add: peakAccepted_def REFRACT_MS_def word_le_nat_alt)
  have 2: "\<forall>s'. detectPeak s a t = Inr s' \<longrightarrow>
      aboveThresh s' = a \<and> (peakAccepted s a t \<longrightarrow> lastPeakMs s' = t)"
    using detectPeak_flag detectPeak_accepted by blast
  have 3: "\<not> peakAccepted s a t \<longrightarrow> detectPeak s a t = Inr (s\<lparr>aboveThresh := a\<rparr>)"
    using detectPeak_dropped by blast
  have 4: "(\<forall>x \<in> set xs. fst x) \<longrightarrow> acceptedPeaks s xs \<le> 1"
    using excursion_at_most_one by blast
  have 5: "acceptedPeaks s [(True, t), (False, u), (True, t + 50)] \<le> 1"
    using two_pulses_first_accepted [of s t u] two_pulses_first_dropped [of s t u]
    by (cases "peakAccepted s True t") simp_all
  have 6: "\<not> aboveThresh s \<longrightarrow> REFRACT_MS \<le> t - lastPeakMs s \<longrightarrow>
      acceptedPeaks s [(True, t), (False, u), (True, t + 50)] = 1"
    using two_pulses_first_accepted [of s t u] by (simp add: peakAccepted_def)
  show ?thesis using 1 2 3 4 5 6 by blast
qed

text \<open>
  Given rising edges 65636 ms apart, both peaks are accepted and the interval stored
  in the history is 100: the cast to 16 bits comes after the refractory test.
\<close>

lemma rr_truncated_to_16_bits:
  "detectRun ecg_init [(True, 1000), (False, 1004), (True, 66636)] =
     Inr (ecg_init\<lparr>aboveThresh := True, lastPeakMs := 66636, rrBuf := [100, 0, 0, 0, 0], rrIdx := 1\<rparr>) \<and>
   acceptedPeaks ecg_init [(True, 1000), (False, 1004), (True, 66636)] = 2 \<and>
   (100 :: u16) < 250"
  by (simp add: ecg_eval)

text \<open>
  Given rising edges 800 ms apart, one of them at the reading 0 of the wrapped
  millisecond counter, five peaks are accepted and three intervals are pushed, because
  the peak after the one at 0 finds the last peak time equal to 0.
\<close>

lemma sentinel_collides_with_wrapped_time:
  "detectRun ecg_init
     [(True, 4294965696), (False, 4294965700), (True, 4294966496), (False, 4294966500),
      (True, 0), (False, 4), (True, 800), (False, 804), (True, 1600)] =
     Inr (ecg_init\<lparr>aboveThresh := True, lastPeakMs := 1600, rrBuf := [800, 800, 800, 0, 0],
       rrIdx := 3, bpmCurrent := 75\<rparr>) \<and>
   acceptedPeaks ecg_init
     [(True, 4294965696), (False, 4294965700), (True, 4294966496), (False, 4294966500),
      (True, 0), (False, 4), (True, 800), (False, 804), (True, 1600)] = 5"
  by (simp add: ecg_eval)

section \<open>The RR history under a train of peaks\<close>

lemma ecg_wf_init: "ecg_wf ecg_init"
  by (simp add: ecg_wf_def ecg_init_def RR_AVG_N_def)

lemma detectPeak_wf:
  assumes "ecg_wf s" and "detectPeak s a t = Inr s'"
  shows "ecg_wf s'"
proof (cases "peakAccepted s a t")
  case False
  then show ?thesis using assms detectPeak_dropped [of s a t] by (auto simp: ecg_wf_def)
next
  case True
  show ?thesis
  proof (cases "lastPeakMs s = 0")
    case z: True
    then show ?thesis using assms True detectPeak_first [of s a t] by (auto simp: ecg_wf_def)
  next
    case nz: False
    from assms(2) detectPeak_later [OF nz True]
    obtain s1 where p: "pushRR s (ucast (t - lastPeakMs s)) = Inr s1"
      and s': "s' = s1\<lparr>lastPeakMs := t, aboveThresh := a\<rparr>"
      by (auto split: sum.splits)
    have "ecg_wf s1" using pushRR_Inr [OF assms(1) p] by simp
    then show ?thesis by (simp add: s' ecg_wf_def)
  qed
qed

lemma detectRun_wf:
  "ecg_wf s \<Longrightarrow> detectRun s xs = Inr s' \<Longrightarrow> ecg_wf s'"
proof (induction xs arbitrary: s)
  case Nil
  then show ?case by simp
next
  case (Cons x xs)
  obtain a t where x: "x = (a, t)" by (cases x)
  from Cons.prems(2) x obtain s1 where d: "detectPeak s a t = Inr s1" and r: "detectRun s1 xs = Inr s'"
    by (auto split: sum.splits)
  from detectPeak_wf [OF Cons.prems(1) d] r show ?case by (rule Cons.IH)
qed

text \<open>Every interval held after a store was held before or is the one stored.\<close>

lemma storeRR_held_subset:
  assumes "ecg_wf s"
  shows "set (heldRR (storeRR s rr)) \<subseteq> insert rr (set (heldRR s))"
proof -
  have i: "rrIdx s < 5" and len: "length (rrBuf s) = 5"
    using assms by (simp_all add: ecg_wf_def RR_AVG_N_def)
  have upd: "take (Suc (rrIdx s)) ((rrBuf s)[rrIdx s := rr]) = take (rrIdx s) (rrBuf s) @ [rr]"
    using i len by (simp add: take_Suc_conv_app_nth)
  show ?thesis
  proof (cases "rrFilled s")
    case True
    then have "heldRR (storeRR s rr) = (rrBuf s)[rrIdx s := rr]" "heldRR s = rrBuf s"
      using len by (auto simp: storeRR_def heldRR_def Let_def RR_AVG_N_def)
    then show ?thesis using set_update_subset_insert [of "rrBuf s" "rrIdx s" rr] by simp
  next
    case False
    then have h: "heldRR s = take (rrIdx s) (rrBuf s)" by (simp add: heldRR_def)
    have "heldRR (storeRR s rr) = take (Suc (rrIdx s)) ((rrBuf s)[rrIdx s := rr])"
    proof (cases "RR_AVG_N \<le> rrIdx s + 1")
      case True
      then have "rrIdx s = 4" using i by (simp add: RR_AVG_N_def)
      then show ?thesis using len by (simp add: storeRR_def heldRR_def Let_def RR_AVG_N_def)
    next
      case False
      then show ?thesis using \<open>\<not> rrFilled s\<close> by (simp add: storeRR_def heldRR_def Let_def)
    qed
    then show ?thesis unfolding upd h by auto
  qed
qed

lemma meanRR_constant:
  assumes "xs \<noteq> []" and "\<forall>x \<in> set xs. unat x = p"
  shows "meanRR xs = real p"
proof -
  have "map unat xs = replicate (length xs) p"
    using assms(2) by (simp add: map_replicate_const [symmetric] cong: map_cong)
  then have "sum_list (map unat xs) = length xs * p" by (simp add: sum_list_replicate)
  then show ?thesis using assms(1) by (simp add: meanRR_def)
qed

text \<open>
  A steady train of peaks: when every interval held is \<open>p\<close> and the next peak comes
  \<open>p\<close> ms after the last one, with \<open>p\<close> between the refractory period and 65535 and
  \<open>round(60000 / p)\<close> in the valid range, the peak is accepted and the exposed
  estimate is \<open>round(60000 / p)\<close>.
\<close>

lemma steady_pulse_train:
  fixes p :: nat
  assumes wf: "ecg_wf s" and below: "\<not> aboveThresh s" and last: "lastPeakMs s \<noteq> 0"
    and held: "\<forall>x \<in> set (heldRR s). unat x = p"
    and p: "250 \<le> p" "p < 65536"
    and valid: "40 \<le> cround (60000 / real p)" "cround (60000 / real p) \<le> 200"
  shows "\<exists>s'. detectPeak s True (lastPeakMs s + of_nat p) = Inr s' \<and>
    ecgGetBPM s' = cround (60000 / real p) \<and> ecg_wf s' \<and>
    (\<forall>x \<in> set (heldRR s'). unat x = p) \<and> lastPeakMs s' = lastPeakMs s + of_nat p"
proof -
  let ?t = "lastPeakMs s + of_nat p"
  have d: "?t - lastPeakMs s = (of_nat p :: u32)" by simp
  have up: "unat (of_nat p :: u32) = p" using p(2) by (simp add: unat_of_nat)
  have ref: "REFRACT_MS \<le> (of_nat p :: u32)"
    using p(1) up by (simp add: REFRACT_MS_def word_le_nat_alt)
  have acc: "peakAccepted s True ?t" using below ref by (simp add: peakAccepted_def)
  have rr: "unat (ucast (of_nat p :: u32) :: u16) = p"
    using rr_not_truncated(1) [OF ref] up p(2) by simp
  then have nz: "(ucast (of_nat p :: u32) :: u16) \<noteq> 0" using p(1) by (metis not_numeral_le_zero unat_0)
  from pushRR_total [OF wf] obtain s1
    where p1: "pushRR s (ucast (of_nat p :: u32)) = Inr s1" by blast
  note r = pushRR_Inr [OF wf p1]
  have h1: "\<forall>x \<in> set (heldRR s1). unat x = p"
    using r storeRR_held_subset [OF wf, of "ucast (of_nat p :: u32)"] held rr by auto
  have ne: "heldRR s1 \<noteq> []"
    using r storeRR_held_length [OF wf, of "ucast (of_nat p :: u32)"] by auto
  have m: "meanRR (heldRR s1) = real p" using ne h1 by (rule meanRR_constant)
  have b: "bpmCurrent s1 = cround (60000 / real p)"
    using r valid unfolding m by (simp add: BPM_VALID_MIN_def BPM_VALID_MAX_def)
  have "detectPeak s True ?t = Inr (s1\<lparr>lastPeakMs := ?t, aboveThresh := True\<rparr>)"
    using detectPeak_later [OF last acc] p1 unfolding d by simp
  moreover have "heldRR (s1\<lparr>lastPeakMs := ?t, aboveThresh := True\<rparr>) = heldRR s1"
    by (simp add: heldRR_def)
  moreover have "ecg_wf (s1\<lparr>lastPeakMs := ?t, aboveThresh := True\<rparr>)"
    using r by (simp add: ecg_wf_def)
  ultimately show ?thesis using b h1 by (simp add: ecgGetBPM_def)
qed

lemma holds_history_init: "holds_history ecg_init []"
  by (simp add: holds_history_def ecg_wf_def ecg_init_def RR_AVG_N_def)

lemma rev_take_Suc_update:
  assumes "n < length l"
  shows "(rev (take (Suc n) l))[0 := x] = x # rev (take n l)"
  using assms by (simp add: take_Suc_conv_app_nth)

lemma storeRR_history:
  assumes "holds_history s hist"
  shows "holds_history (storeRR s x) (x # hist)"
proof -
  have wf: "ecg_wf s" using assms by (simp add: holds_history_def)
  have i: "rrIdx s < 5" and len: "length (rrBuf s) = 5"
    using wf by (simp_all add: ecg_wf_def RR_AVG_N_def)
  have wf': "ecg_wf (storeRR s x)" using wf by (rule storeRR_wf)
  have upd: "take (Suc (rrIdx s)) ((rrBuf s)[rrIdx s := x]) = take (rrIdx s) (rrBuf s) @ [x]"
    using i len by (simp add: take_Suc_conv_app_nth)
  show ?thesis
  proof (cases "rrFilled s")
    case False
    then have k: "rrIdx s = length hist" and t: "take (rrIdx s) (rrBuf s) = rev hist"
      using assms by (auto simp: holds_history_def)
    show ?thesis
    proof (cases "rrIdx s = 4")
      case True
      have "(rrBuf s)[rrIdx s := x] = take (Suc (rrIdx s)) ((rrBuf s)[rrIdx s := x])"
        using True len by simp
      then have b: "(rrBuf s)[rrIdx s := x] = rev hist @ [x]" unfolding upd t .
      have st: "storeRR s x = s\<lparr>rrBuf := (rrBuf s)[rrIdx s := x], rrIdx := 0, rrFilled := True\<rparr>"
        using True by (simp add: storeRR_def Let_def RR_AVG_N_def)
      show ?thesis
        using wf' k True b unfolding holds_history_def by (simp add: st)
    next
      case False
      then have lt: "rrIdx s < 4" using i by simp
      have st: "storeRR s x = s\<lparr>rrBuf := (rrBuf s)[rrIdx s := x], rrIdx := rrIdx s + 1\<rparr>"
        using lt by (simp add: storeRR_def Let_def RR_AVG_N_def)
      show ?thesis
        using wf' k \<open>\<not> rrFilled s\<close> upd t unfolding holds_history_def by (simp add: st)
    qed
  next
    case True
    then have l5: "5 \<le> length hist"
      and b: "rrBuf s = rev (take (rrIdx s) hist) @ rev (take (5 - rrIdx s) (drop (rrIdx s) hist))"
      using assms by (auto simp: holds_history_def)
    have li: "length (rev (take (rrIdx s) hist)) = rrIdx s" using i l5 by simp
    have s5: "5 - rrIdx s = Suc (4 - rrIdx s)" using i by simp
    have n: "4 - rrIdx s < length (drop (rrIdx s) hist)" using i l5 by simp
    have b': "(rrBuf s)[rrIdx s := x] =
        rev (take (rrIdx s) hist) @ x # rev (take (4 - rrIdx s) (drop (rrIdx s) hist))"
      unfolding b s5 using li rev_take_Suc_update [OF n, of x]
      by (simp add: list_update_append)
    show ?thesis
    proof (cases "rrIdx s = 4")
      case True
      have st: "storeRR s x = s\<lparr>rrBuf := (rrBuf s)[rrIdx s := x], rrIdx := 0, rrFilled := True\<rparr>"
        using True by (simp add: storeRR_def Let_def RR_AVG_N_def)
      have "take 5 (x # hist) = x # take 4 hist" by (simp add: take_Cons')
      then show ?thesis
        using wf' l5 True b' unfolding holds_history_def by (simp add: st)
    next
      case False
      then have lt: "rrIdx s < 4" using i by simp
      have st: "storeRR s x = s\<lparr>rrBuf := (rrBuf s)[rrIdx s := x], rrIdx := rrIdx s + 1\<rparr>"
        using lt by (simp add: storeRR_def Let_def RR_AVG_N_def)
      have "5 - (rrIdx s + 1) = 4 - rrIdx s" by simp
      then show ?thesis
        using wf' l5 \<open>rrFilled s\<close> b' unfolding holds_history_def by (simp add: st)
    qed
  qed
qed

lemma held_history_sum:
  assumes "holds_history s hist"
  shows "sum_list (map unat (heldRR s)) = sum_list (map unat (take 5 hist))"
    and "length (heldRR s) = min 5 (length hist)"
proof -
  have wf: "ecg_wf s" using assms by (simp add: holds_history_def)
  have i: "rrIdx s < 5" and len: "length (rrBuf s) = 5"
    using wf by (simp_all add: ecg_wf_def RR_AVG_N_def)
  show "sum_list (map unat (heldRR s)) = sum_list (map unat (take 5 hist))"
  proof (cases "rrFilled s")
    case False
    then have k: "rrIdx s = length hist" and t: "take (rrIdx s) (rrBuf s) = rev hist"
      using assms by (auto simp: holds_history_def)
    have "heldRR s = rev hist" using False t by (simp add: heldRR_def)
    moreover have "take 5 hist = hist" using i k by simp
    ultimately show ?thesis by (metis rev_map sum_list_rev)
  next
    case True
    then have b: "rrBuf s = rev (take (rrIdx s) hist) @ rev (take (5 - rrIdx s) (drop (rrIdx s) hist))"
      using assms by (auto simp: holds_history_def)
    have h: "heldRR s = rrBuf s" using True len by (simp add: heldRR_def RR_AVG_N_def)
    have "take 5 hist = take (rrIdx s + (5 - rrIdx s)) hist" using i by simp
    also have "\<dots> = take (rrIdx s) hist @ take (5 - rrIdx s) (drop (rrIdx s) hist)"
      by (rule take_add)
    finally have "take 5 hist = take (rrIdx s) hist @ take (5 - rrIdx s) (drop (rrIdx s) hist)" .
    moreover have "sum_list (map unat (rev xs @ rev ys)) = sum_list (map unat (xs @ ys))"
      for xs ys :: "u16 list"
      by (metis rev_append rev_map sum_list_rev add.commute map_append sum_list_append)
    ultimately show ?thesis unfolding h b by simp
  qed
  show "length (heldRR s) = min 5 (length hist)"
    using assms i len by (auto simp: holds_history_def heldRR_def RR_AVG_N_def)
qed


lemma pushRR_state:
  assumes "ecg_wf s" and "pushRR s rr = Inr s'"
  shows "\<exists>b. s' = (storeRR s rr)\<lparr>bpmCurrent := b\<rparr>"
proof -
  have e: "\<exists>b. storeRR s rr = (storeRR s rr)\<lparr>bpmCurrent := b\<rparr>"
    by (rule exI [of _ "bpmCurrent (storeRR s rr)"]) simp
  have "s' = storeRR s rr \<or> (\<exists>b. s' = (storeRR s rr)\<lparr>bpmCurrent := b\<rparr>)"
    using assms(2) unfolding pushRR_unfold [OF assms(1)]
    by (auto split: if_splits)
  then show ?thesis using e by auto
qed

lemma holds_history_bpm:
  "holds_history (s\<lparr>bpmCurrent := b\<rparr>) hist = holds_history s hist"
  by (simp add: holds_history_def ecg_wf_def)

text \<open>
  What \<open>pushRR\<close> computes, in terms of the intervals pushed so far: the mean is taken
  over the most recent five of them, or over all of them while there are fewer.
\<close>

lemma pushRR_history:
  assumes h: "holds_history s hist" and r: "pushRR s x = Inr s'"
  shows "holds_history s' (x # hist)"
    and "meanRR (heldRR s') = meanRR (take 5 (x # hist))"
    and "bpmCurrent s' =
      (if 40 \<le> cround (60000 / meanRR (take 5 (x # hist)))
          \<and> cround (60000 / meanRR (take 5 (x # hist))) \<le> 200
       then cround (60000 / meanRR (take 5 (x # hist))) else bpmCurrent s)"
proof -
  have wf: "ecg_wf s" using h by (simp add: holds_history_def)
  from pushRR_state [OF wf r] obtain b where s': "s' = (storeRR s x)\<lparr>bpmCurrent := b\<rparr>" by blast
  show hh: "holds_history s' (x # hist)"
    unfolding s' holds_history_bpm using h by (rule storeRR_history)
  have "length (heldRR s') = length (take 5 (x # hist))"
    using held_history_sum(2) [OF hh] by simp
  then show m: "meanRR (heldRR s') = meanRR (take 5 (x # hist))"
    using held_history_sum(1) [OF hh] by (simp only: meanRR_def)
  show "bpmCurrent s' =
      (if 40 \<le> cround (60000 / meanRR (take 5 (x # hist)))
          \<and> cround (60000 / meanRR (take 5 (x # hist))) \<le> 200
       then cround (60000 / meanRR (take 5 (x # hist))) else bpmCurrent s)"
    using pushRR_Inr [OF wf r] unfolding m
    by (simp add: BPM_VALID_MIN_def BPM_VALID_MAX_def)
qed


text \<open>
  C5: the estimate that \<open>ecgGetBPM\<close> exposes after any sequence of samples, taken at
  any times, is still 0, and no peak time or interval has been stored: a periodic pulse
  train never makes the estimate \<open>round(60000 / P)\<close>.  And in the edge logic, two
  peaks accepted 66536 ms apart push the interval 1000 and expose 60 bpm.
\<close>

theorem bpm_estimate_diverges:
  "(\<exists>s'. ecgRun ecg_init xs = Inr s' \<and> ecgGetBPM s' = 0 \<and> lastPeakMs s' = 0
      \<and> rrBuf s' = rrBuf ecg_init) \<and>
   detectRun ecg_init [(True, 1000), (False, 1004), (True, 67536)] =
     Inr (ecg_init\<lparr>aboveThresh := True, lastPeakMs := 67536, rrBuf := [1000, 0, 0, 0, 0],
       rrIdx := 1, bpmCurrent := 60\<rparr>)"
proof -
  have "detectRun ecg_init [(True, 1000), (False, 1004), (True, 67536)] =
     Inr (ecg_init\<lparr>aboveThresh := True, lastPeakMs := 67536, rrBuf := [1000, 0, 0, 0, 0],
       rrIdx := 1, bpmCurrent := 60\<rparr>)"
    by (simp add: ecg_eval)
  then show ?thesis using detector_never_fires [of xs] by blast
qed

section \<open>Single-precision arithmetic: signs and the smoothing constants\<close>

lemma valof_pos_iff: "0 < valof (F32 m e) \<longleftrightarrow> 0 < m"
  by (simp add: zero_less_divide_iff zero_less_mult_iff)

lemma valof_le0_iff: "valof (F32 m e) \<le> 0 \<longleftrightarrow> m \<le> 0"
  using valof_pos_iff [of m e] by (simp only: not_less [symmetric])

lemma bits_over_bound:
  "bits_over a = Suc j \<Longrightarrow> 16777216 * 2 ^ j \<le> a"
proof (induction a arbitrary: j rule: bits_over.induct)
  case (1 a)
  show ?case
  proof (cases "a < 16777216")
    case True
    then show ?thesis using "1.prems" by (simp add: bits_over.simps)
  next
    case False
    then have s: "bits_over (a div 2) = j" using "1.prems" by (simp add: bits_over.simps [of a])
    show ?thesis
    proof (cases j)
      case 0
      then show ?thesis using False by simp
    next
      case (Suc i)
      with s have "bits_over (a div 2) = Suc i" by simp
      from "1.IH" [OF False this] have "16777216 * 2 ^ i \<le> a div 2" .
      then have "2 * (16777216 * 2 ^ i) \<le> a" by simp
      then show ?thesis using Suc by simp
    qed
  qed
qed

lemma round24_pos:
  assumes "0 < m"
  shows "\<exists>q e'. round24 m e = F32 q e' \<and> 0 < q"
proof (cases "bits_over (nat \<bar>m\<bar>)")
  case 0
  then show ?thesis using assms by (simp add: round24_def)
next
  case (Suc j)
  define k where "k = Suc j"
  have "16777216 * 2 ^ j \<le> nat \<bar>m\<bar>" using Suc by (rule bits_over_bound)
  then have "(2 :: nat) ^ k \<le> nat \<bar>m\<bar>" by (simp add: k_def)
  then have "int (2 ^ k) \<le> int (nat \<bar>m\<bar>)" by (simp only: of_nat_le_iff)
  then have "(2 :: int) ^ k \<le> \<bar>m\<bar>" by simp
  then have q: "0 < \<bar>m\<bar> div 2 ^ k"
    using pos_imp_zdiv_pos_iff [of "2 ^ k" "\<bar>m\<bar>"] by simp
  have sg: "sgn m = 1" using assms by simp
  define q1 where "q1 = (if \<bar>m\<bar> mod 2 ^ k < 2 ^ (k - 1) then \<bar>m\<bar> div 2 ^ k
      else if 2 ^ (k - 1) < \<bar>m\<bar> mod 2 ^ k then \<bar>m\<bar> div 2 ^ k + 1
      else if even (\<bar>m\<bar> div 2 ^ k) then \<bar>m\<bar> div 2 ^ k else \<bar>m\<bar> div 2 ^ k + 1)"
  have q1: "\<bar>m\<bar> div 2 ^ k \<le> q1" by (simp add: q1_def)
  have kk: "bits_over (nat \<bar>m\<bar>) = k" using Suc by (simp add: k_def)
  have k0: "k \<noteq> 0" by (simp add: k_def)
  have r: "round24 m e = F32 (sgn m * q1) (e + int k)"
    unfolding round24_def Let_def kk q1_def using k0 by (simp only: if_False)
  show ?thesis using r q q1 sg by auto
qed

lemma fmul_pos:
  assumes "0 < valof a" and "0 < valof b"
  shows "0 < valof (fmul a b)"
proof -
  obtain m1 e1 m2 e2 where ab: "a = F32 m1 e1" "b = F32 m2 e2" by (cases a, cases b) auto
  have "0 < m1 * m2" using assms unfolding ab valof_pos_iff by simp
  from round24_pos [OF this, of "e1 + e2"] show ?thesis
    unfolding ab using valof_pos_iff by auto
qed

lemma fadd_pos:
  assumes "0 < valof a" and "0 < valof b"
  shows "0 < valof (fadd a b)"
proof -
  obtain m1 e1 m2 e2 where ab: "a = F32 m1 e1" "b = F32 m2 e2" by (cases a, cases b) auto
  have m: "0 < m1" "0 < m2" using assms unfolding ab valof_pos_iff by simp_all
  have "0 < m1 * 2 ^ nat (e1 - min e1 e2) + m2 * 2 ^ nat (e2 - min e1 e2)"
    using m by (simp add: add_pos_pos)
  from round24_pos [OF this, of "min e1 e2"] show ?thesis
    unfolding ab using valof_pos_iff by (auto simp: Let_def)
qed

lemma float_of_int_pos: "0 < i \<Longrightarrow> 0 < valof (float_of_int i)"
  using round24_pos [of i 0] valof_pos_iff by (auto simp: float_of_int_def)

lemmas f32_eval = round24_def bits_over.simps fsub_def float_of_int_def Let_def
  HR_SMOOTH_A_def KP_def HR_DEADBAND_def

lemma one_minus_A: "fsub (F32 1 0) HR_SMOOTH_A = F32 6710886 (- 24)"
  by (simp add: f32_eval)

lemma A_value:
  "valof HR_SMOOTH_A = 10066330 / 16777216"
  "\<bar>valof HR_SMOOTH_A - 6 / 10\<bar> < 1 / 2 ^ 25"
  by (simp_all add: HR_SMOOTH_A_def)

text \<open>The smoothed value stays positive once a positive reading has gone in.\<close>

lemma ema_pos:
  assumes "0 < valof h" and "0 < bpm"
  shows "0 < valof (fadd (fmul HR_SMOOTH_A h)
                     (fmul (fsub (F32 1 0) HR_SMOOTH_A) (float_of_int bpm)))"
proof -
  have a: "0 < valof HR_SMOOTH_A" by (simp add: HR_SMOOTH_A_def)
  have b: "0 < valof (fsub (F32 1 0) HR_SMOOTH_A)" unfolding one_minus_A by simp
  show ?thesis
    by (intro fadd_pos fmul_pos a b assms(1) float_of_int_pos assms(2))
qed

lemma seeded_ema_pos:
  assumes "0 < bpm"
  shows "0 < valof (fadd (fmul HR_SMOOTH_A (if valof h \<le> 0 then float_of_int bpm else h))
                     (fmul (fsub (F32 1 0) HR_SMOOTH_A) (float_of_int bpm)))"
proof -
  have "0 < valof (if valof h \<le> 0 then float_of_int bpm else h)"
    using float_of_int_pos [OF assms] by auto
  then show ?thesis using assms by (rule ema_pos)
qed

text \<open>
  Seeding with a reading \<open>r\<close> in [40, 200] and smoothing \<open>r\<close> into the seed gives
  exactly \<open>r\<close>: checked for each of the 161 readings.
\<close>

lemma ema_seed_exact_a:
  "\<forall>r \<in> set [40..80]. valof (fadd (fmul HR_SMOOTH_A (float_of_int r))
      (fmul (fsub (F32 1 0) HR_SMOOTH_A) (float_of_int r))) = of_int r"
  by (simp add: upto.simps f32_eval)

lemma ema_seed_exact_b:
  "\<forall>r \<in> set [81..120]. valof (fadd (fmul HR_SMOOTH_A (float_of_int r))
      (fmul (fsub (F32 1 0) HR_SMOOTH_A) (float_of_int r))) = of_int r"
  by (simp add: upto.simps f32_eval)

lemma ema_seed_exact_c:
  "\<forall>r \<in> set [121..160]. valof (fadd (fmul HR_SMOOTH_A (float_of_int r))
      (fmul (fsub (F32 1 0) HR_SMOOTH_A) (float_of_int r))) = of_int r"
  by (simp add: upto.simps f32_eval)

lemma ema_seed_exact_d:
  "\<forall>r \<in> set [161..200]. valof (fadd (fmul HR_SMOOTH_A (float_of_int r))
      (fmul (fsub (F32 1 0) HR_SMOOTH_A) (float_of_int r))) = of_int r"
  by (simp add: upto.simps f32_eval)

lemma ema_seed_exact:
  assumes "40 \<le> r" and "r \<le> 200"
  shows "valof (fadd (fmul HR_SMOOTH_A (float_of_int r))
      (fmul (fsub (F32 1 0) HR_SMOOTH_A) (float_of_int r))) = of_int r"
proof -
  have "r \<in> {40..80} \<or> r \<in> {81..120} \<or> r \<in> {121..160} \<or> r \<in> {161..200}"
    using assms unfolding atLeastAtMost_iff by presburger
  then show ?thesis
    using ema_seed_exact_a [unfolded set_upto] ema_seed_exact_b [unfolded set_upto]
      ema_seed_exact_c [unfolded set_upto] ema_seed_exact_d [unfolded set_upto]
    by blast
qed

section \<open>The controller\<close>

lemma clampT_range: "lo \<le> hi \<Longrightarrow> lo \<le> clampT v lo hi \<and> clampT v lo hi \<le> hi"
  by (simp add: clampT_def)

lemma clampT_id: "lo \<le> v \<Longrightarrow> v \<le> hi \<Longrightarrow> clampT v lo hi = v"
  by (simp add: clampT_def)

lemma cround_0: "cround (valof (F32 0 0)) = 0"
  by (simp add: cround_def)

lemma uint_clamped:
  "uint (word_of_int (clampT v PWM_MIN PWM_MAX) :: u8) = clampT v PWM_MIN PWM_MAX"
proof -
  have "70 \<le> clampT v 70 255 \<and> clampT v 70 255 \<le> 255" by (rule clampT_range) simp
  then have "0 \<le> clampT v 70 255" "clampT v 70 255 < 2 ^ 8" by simp_all
  then have "uint (word_of_int (clampT v 70 255) :: u8) = clampT v 70 255"
    by (simp add: uint_word_of_int take_bit_int_eq_self)
  then show ?thesis by (simp add: PWM_MIN_def PWM_MAX_def)
qed

lemma control_invalid:
  assumes "bpm < 40 \<or> 200 < bpm"
  shows "controlHeartRateBand s lo hi bpm now = (s, [Warn_invalid bpm])"
  using assms by (auto simp: controlHeartRateBand_def HR_VALID_MIN_def HR_VALID_MAX_def)

text \<open>The smoothed value after a valid reading.\<close>

lemma control_hrEma:
  assumes "40 \<le> bpm" "bpm \<le> 200"
  shows "hrEma (fst (controlHeartRateBand s lo hi bpm now)) =
    fadd (fmul HR_SMOOTH_A (if valof (hrEma s) \<le> 0 then float_of_int bpm else hrEma s))
      (fmul (fsub (F32 1 0) HR_SMOOTH_A) (float_of_int bpm))"
  using assms
  by (simp add: controlHeartRateBand_def HR_VALID_MIN_def HR_VALID_MAX_def Let_def motorWrite_def)

lemma control_waiting:
  assumes "40 \<le> bpm" "bpm \<le> 200" "now - lastCtrlMs s < CTRL_PERIODMS"
  shows "motorPwm (fst (controlHeartRateBand s lo hi bpm now)) = motorPwm s"
    and "lastCtrlMs (fst (controlHeartRateBand s lo hi bpm now)) = lastCtrlMs s"
  using assms
  by (simp_all add: controlHeartRateBand_def HR_VALID_MIN_def HR_VALID_MAX_def Let_def)

lemma control_acting:
  fixes s :: ctrl_state and lo hi :: f32 and bpm :: int and now :: u32
  assumes v: "40 \<le> bpm" "bpm \<le> 200" and due: "\<not> now - lastCtrlMs s < CTRL_PERIODMS"
  defines "h \<equiv> hrEma (fst (controlHeartRateBand s lo hi bpm now))"
  defines "delta \<equiv> (if valof h < valof (fsub lo HR_DEADBAND) then fmul KP (fsub lo h)
                      else if valof (fadd hi HR_DEADBAND) < valof h then fmul (fneg KP) (fsub h hi)
                      else F32 0 0)"
  shows "motorPwm (fst (controlHeartRateBand s lo hi bpm now)) =
      word_of_int (clampT (uint (motorPwm s) + cround (valof delta)) PWM_MIN PWM_MAX)"
    and "lastCtrlMs (fst (controlHeartRateBand s lo hi bpm now)) = now"
    and "snd (controlHeartRateBand s lo hi bpm now) =
      [Motor_write (motorPwm (fst (controlHeartRateBand s lo hi bpm now))),
       Ctrl_line lo hi bpm h (cround (valof delta))
         (clampT (uint (motorPwm s) + cround (valof delta)) PWM_MIN PWM_MAX)]"
  using v due unfolding delta_def h_def
  by (simp_all add: controlHeartRateBand_def HR_VALID_MIN_def HR_VALID_MAX_def Let_def motorWrite_def)

lemma control_pwm_range:
  assumes "70 \<le> uint (motorPwm s)"
  shows "70 \<le> uint (motorPwm (fst (controlHeartRateBand s lo hi bpm now)))"
proof (cases "40 \<le> bpm \<and> bpm \<le> 200")
  case False
  then show ?thesis using assms control_invalid [of bpm s lo hi now] by auto
next
  case True
  show ?thesis
  proof (cases "now - lastCtrlMs s < CTRL_PERIODMS")
    case w: True
    then show ?thesis using True assms control_waiting(1) [of bpm now s lo hi] by simp
  next
    case d: False
    have "70 \<le> clampT v PWM_MIN PWM_MAX" for v
      using clampT_range [of 70 255 v] by (simp add: PWM_MIN_def PWM_MAX_def)
    then show ?thesis using True d control_acting(1) [of bpm now s lo hi]
      by (simp add: uint_clamped)
  qed
qed

subsection \<open>Iterations of the main loop\<close>

lemma modeInput_frame:
  "motorPwm (fst (modeInput s serial)) = motorPwm s"
  "hrEma (fst (modeInput s serial)) = hrEma s"
  "lastCtrlMs (fst (modeInput s serial)) = lastCtrlMs s"
  by (simp_all add: modeInput_def Let_def split: option.splits)

lemma runMode_pwm_range:
  assumes "70 \<le> uint (motorPwm s)"
  shows "70 \<le> uint (motorPwm (fst (runMode s bpm now)))"
  using assms control_pwm_range [of s]
  by (simp add: runMode_def dietRun_def trainingRun_def Let_def)

lemma runMode_hrEma:
  "hrEma (fst (runMode s bpm now)) =
     (if 40 \<le> bpm \<and> bpm \<le> 200
      then fadd (fmul HR_SMOOTH_A (if valof (hrEma s) \<le> 0 then float_of_int bpm else hrEma s))
             (fmul (fsub (F32 1 0) HR_SMOOTH_A) (float_of_int bpm))
      else hrEma s)"
proof (cases "40 \<le> bpm \<and> bpm \<le> 200")
  case True
  then show ?thesis
    using control_hrEma [of bpm s]
    by (simp add: runMode_def dietRun_def trainingRun_def Let_def HR_VALID_MIN_def HR_VALID_MAX_def)
next
  case False
  then have "bpm < 40 \<or> 200 < bpm" by auto
  then show ?thesis
    using control_invalid [of bpm s] False
    by (auto simp: runMode_def dietRun_def trainingRun_def Let_def HR_VALID_MIN_def HR_VALID_MAX_def)
qed

lemma loop_fst:
  "fst (loop s (serial, bpm, now)) = fst (runMode (fst (modeInput s serial)) bpm now)"
  by (simp add: loop_def split: prod.splits)

lemma loop_pwm_range:
  assumes "70 \<le> uint (motorPwm s)"
  shows "70 \<le> uint (motorPwm (fst (loop s inp)))"
proof -
  obtain serial bpm now where inp: "inp = (serial, bpm, now)" by (cases inp)
  have "70 \<le> uint (motorPwm (fst (modeInput s serial)))"
    using assms by (simp add: modeInput_frame)
  then show ?thesis unfolding inp loop_fst by (rule runMode_pwm_range)
qed

lemma loop_hrEma:
  "hrEma (fst (loop s (serial, bpm, now))) =
     (if 40 \<le> bpm \<and> bpm \<le> 200
      then fadd (fmul HR_SMOOTH_A (if valof (hrEma s) \<le> 0 then float_of_int bpm else hrEma s))
             (fmul (fsub (F32 1 0) HR_SMOOTH_A) (float_of_int bpm))
      else hrEma s)"
  by (simp only: loop_fst runMode_hrEma modeInput_frame)

lemma ctrlRun_pwm_range:
  "70 \<le> uint (motorPwm s) \<Longrightarrow> 70 \<le> uint (motorPwm (ctrlRun s inps))"
  by (induction inps arbitrary: s) (simp_all add: loop_pwm_range)

lemma setup_pwm: "uint (motorPwm (fst ctrl_setup)) = 70"
  by (simp add: ctrl_setup_def motorWrite_def PWM_MIN_def)

lemma setup_hrEma: "hrEma (fst ctrl_setup) = F32 0 0"
  by (simp add: ctrl_setup_def motorWrite_def ctrl_globals_def)

lemma loop_hrEma_pos:
  assumes "0 < valof (hrEma s)"
  shows "0 < valof (hrEma (fst (loop s inp)))"
proof -
  obtain serial bpm now where inp: "inp = (serial, bpm, now)" by (cases inp)
  show ?thesis
  proof (cases "40 \<le> bpm \<and> bpm \<le> 200")
    case True
    then have "0 < bpm" by simp
    from seeded_ema_pos [OF this, of "hrEma s"] show ?thesis
      using True unfolding inp loop_hrEma by simp
  next
    case False
    then show ?thesis using assms unfolding inp loop_hrEma by auto
  qed
qed

lemma ctrlRun_hrEma_pos:
  "0 < valof (hrEma s) \<Longrightarrow> 0 < valof (hrEma (ctrlRun s inps))"
  by (induction inps arbitrary: s) (simp_all add: loop_hrEma_pos)

lemma ctrlRun_hrEma_none_valid:
  assumes "\<forall>inp \<in> set inps. \<not> (40 \<le> fst (snd inp) \<and> fst (snd inp) \<le> 200)"
  shows "hrEma (ctrlRun s inps) = hrEma s"
  using assms
proof (induction inps arbitrary: s)
  case Nil
  then show ?case by simp
next
  case (Cons inp inps)
  obtain serial bpm now where inp: "inp = (serial, bpm, now)" by (cases inp)
  have nv: "\<not> (40 \<le> bpm \<and> bpm \<le> 200)" using Cons.prems inp by simp
  have "hrEma (fst (loop s inp)) = hrEma s"
    using nv unfolding inp loop_hrEma by auto
  moreover have "hrEma (ctrlRun (fst (loop s inp)) inps) = hrEma (fst (loop s inp))"
    using Cons.prems by (intro Cons.IH) simp
  ultimately show ?case by simp
qed

lemma ctrlRun_hrEma_some_valid:
  assumes "\<exists>inp \<in> set inps. 40 \<le> fst (snd inp) \<and> fst (snd inp) \<le> 200"
  shows "0 < valof (hrEma (ctrlRun s inps))"
  using assms
proof (induction inps arbitrary: s)
  case Nil
  then show ?case by simp
next
  case (Cons inp inps)
  obtain serial bpm now where inp: "inp = (serial, bpm, now)" by (cases inp)
  show ?case
  proof (cases "40 \<le> bpm \<and> bpm \<le> 200")
    case True
    then have "0 < bpm" by simp
    from seeded_ema_pos [OF this, of "hrEma s"]
    have "0 < valof (hrEma (fst (loop s inp)))"
      using True unfolding inp loop_hrEma by simp
    then have "0 < valof (hrEma (ctrlRun (fst (loop s inp)) inps))" by (rule ctrlRun_hrEma_pos)
    then show ?thesis by simp
  next
    case False
    have "\<exists>inp \<in> set inps. 40 \<le> fst (snd inp) \<and> fst (snd inp) \<le> 200"
      using Cons.prems False inp by auto
    then have "0 < valof (hrEma (ctrlRun (fst (loop s inp)) inps))" by (rule Cons.IH)
    then show ?thesis by simp
  qed
qed


lemmas ctrl_eval = controlHeartRateBand_def motorWrite_def clampT_def cround_def ctrl_setup_def
  ctrl_globals_def HR_VALID_MIN_def HR_VALID_MAX_def CTRL_PERIODMS_def PWM_MIN_def PWM_MAX_def
  loop_def modeInput_def runMode_def dietRun_def trainingRun_def trim_def isspace_def f32_eval

text \<open>
  C1, as amended: in an invocation with a valid reading, at least 1000 ms (as the
  32-bit difference of the counter readings) after the last control action, the change
  \<open>delta\<close> is the single-precision product of \<open>Kp\<close> and the single-precision
  difference \<open>low - h\<close> when the smoothed value \<open>h\<close> is below the single-precision
  \<open>low - d\<close>, the product of \<open>- Kp\<close> and \<open>h - high\<close> when \<open>h\<close> is above
  \<open>high + d\<close>, and 0 otherwise; the new command is the clamp of the old one plus
  \<open>round(delta)\<close> to [70, 255], it is written to the motor and stored, and the time
  of the control action becomes \<open>now\<close>.  With \<open>h\<close> inside the band widened by
  \<open>d\<close> a command in [70, 255] is unchanged, and after the initialisation the command
  stays in [70, 255] for any number of loop iterations.
\<close>

theorem control_law:
  fixes s :: ctrl_state and low high :: f32 and bpm :: int and now :: u32
  assumes "40 \<le> bpm" and "bpm \<le> 200" and "\<not> now - lastCtrlMs s < 1000"
  shows "let r = controlHeartRateBand s low high bpm now;
             h = hrEma (fst r);
             delta = (if valof h < valof (fsub low (F32 3 (- 1)))
                      then fmul (F32 7 (- 1)) (fsub low h)
                      else if valof (fadd high (F32 3 (- 1))) < valof h
                      then fmul (F32 (- 7) (- 1)) (fsub h high)
                      else F32 0 0)
         in uint (motorPwm (fst r)) = clampT (uint (motorPwm s) + cround (valof delta)) 70 255 \<and>
            Motor_write (motorPwm (fst r)) \<in> set (snd r) \<and>
            lastCtrlMs (fst r) = now \<and>
            (valof (fsub low (F32 3 (- 1))) \<le> valof h \<and> valof h \<le> valof (fadd high (F32 3 (- 1)))
               \<and> 70 \<le> uint (motorPwm s)
               \<longrightarrow> motorPwm (fst r) = motorPwm s) \<and>
            70 \<le> uint (motorPwm (fst r)) \<and> uint (motorPwm (fst r)) \<le> 255 \<and>
            (\<forall>inps. 70 \<le> uint (motorPwm (ctrlRun (fst ctrl_setup) inps)) \<and>
                    uint (motorPwm (ctrlRun (fst ctrl_setup) inps)) \<le> 255)"
proof -
  define r where "r = controlHeartRateBand s low high bpm now"
  define h where "h = hrEma (fst r)"
  define delta where "delta = (if valof h < valof (fsub low (F32 3 (- 1)))
                      then fmul (F32 7 (- 1)) (fsub low h)
                      else if valof (fadd high (F32 3 (- 1))) < valof h
                      then fmul (F32 (- 7) (- 1)) (fsub h high)
                      else F32 0 0)"
  have due: "\<not> now - lastCtrlMs s < CTRL_PERIODMS" using assms(3) by (simp add: CTRL_PERIODMS_def)
  have d: "delta = (if valof h < valof (fsub low HR_DEADBAND) then fmul KP (fsub low h)
                      else if valof (fadd high HR_DEADBAND) < valof h then fmul (fneg KP) (fsub h high)
                      else F32 0 0)"
    by (simp add: delta_def HR_DEADBAND_def KP_def)
  have pwm: "motorPwm (fst r) =
      word_of_int (clampT (uint (motorPwm s) + cround (valof delta)) PWM_MIN PWM_MAX)"
    using control_acting(1) [OF assms(1,2) due, of low high] unfolding r_def h_def d by simp
  have u: "uint (motorPwm (fst r)) = clampT (uint (motorPwm s) + cround (valof delta)) 70 255"
    unfolding pwm uint_clamped by (simp add: PWM_MIN_def PWM_MAX_def)
  have w: "Motor_write (motorPwm (fst r)) \<in> set (snd r)"
    using control_acting(3) [OF assms(1,2) due, of low high] unfolding r_def by simp
  have t: "lastCtrlMs (fst r) = now"
    using control_acting(2) [OF assms(1,2) due, of low high] unfolding r_def by simp
  have rng: "70 \<le> uint (motorPwm (fst r)) \<and> uint (motorPwm (fst r)) \<le> 255"
    unfolding u by (rule clampT_range) simp
  have hold: "motorPwm (fst r) = motorPwm s"
    if "valof (fsub low (F32 3 (- 1))) \<le> valof h \<and> valof h \<le> valof (fadd high (F32 3 (- 1)))
          \<and> 70 \<le> uint (motorPwm s)"
  proof -
    have "delta = F32 0 0" using that by (simp add: delta_def)
    moreover have "uint (motorPwm s) \<le> 255" using uint_lt2p [of "motorPwm s"] by simp
    ultimately have "uint (motorPwm (fst r)) = uint (motorPwm s)"
      using that unfolding u by (simp add: cround_def clampT_id)
    then show ?thesis by (simp add: word_uint_eq_iff)
  qed
  have run: "70 \<le> uint (motorPwm (ctrlRun (fst ctrl_setup) inps)) \<and>
      uint (motorPwm (ctrlRun (fst ctrl_setup) inps)) \<le> 255" for inps
  proof
    show "70 \<le> uint (motorPwm (ctrlRun (fst ctrl_setup) inps))"
      by (rule ctrlRun_pwm_range) (simp add: setup_pwm)
    show "uint (motorPwm (ctrlRun (fst ctrl_setup) inps)) \<le> 255"
      using uint_lt2p [of "motorPwm (ctrlRun (fst ctrl_setup) inps)"] by simp
  qed
  show ?thesis
    unfolding Let_def r_def [symmetric] h_def [symmetric] delta_def [symmetric]
    using u w t hold rng run by blast
qed

theorem control_law_witness:
  "(40 :: int) \<le> 50 \<and> (50 :: int) \<le> 200 \<and> \<not> 1000 - lastCtrlMs (fst ctrl_setup) < 1000 \<and>
   valof (hrEma (fst (controlHeartRateBand (fst ctrl_setup) (F32 60 0) (F32 70 0) 50 1000))) = 50 \<and>
   valof (fmul (F32 7 (- 1)) (fsub (F32 60 0)
      (hrEma (fst (controlHeartRateBand (fst ctrl_setup) (F32 60 0) (F32 70 0) 50 1000))))) = 35 \<and>
   uint (motorPwm (fst (controlHeartRateBand (fst ctrl_setup) (F32 60 0) (F32 70 0) 50 1000))) = 105 \<and>
   Motor_write 105 \<in> set (snd (controlHeartRateBand (fst ctrl_setup) (F32 60 0) (F32 70 0) 50 1000)) \<and>
   valof (hrEma (fst (controlHeartRateBand (fst ctrl_setup) (F32 60 0) (F32 70 0) 65 1000))) = 65 \<and>
   70 \<le> uint (motorPwm (fst ctrl_setup)) \<and>
   motorPwm (fst (controlHeartRateBand (fst ctrl_setup) (F32 60 0) (F32 70 0) 65 1000)) =
     motorPwm (fst ctrl_setup)"
proof -
  have due: "\<not> 1000 - lastCtrlMs (fst ctrl_setup) < 1000" by (simp add: ctrl_eval)
  have h50: "hrEma (fst (controlHeartRateBand (fst ctrl_setup) (F32 60 0) (F32 70 0) 50 1000)) =
      F32 13107200 (- 18)"
    by (simp add: ctrl_eval)
  have h65: "hrEma (fst (controlHeartRateBand (fst ctrl_setup) (F32 60 0) (F32 70 0) 65 1000)) =
      F32 8519680 (- 17)"
    by (simp add: ctrl_eval)
  have p: "uint (motorPwm (fst ctrl_setup)) = 70" by (rule setup_pwm)
  have a: "uint (motorPwm (fst (controlHeartRateBand (fst ctrl_setup) (F32 60 0) (F32 70 0) 50 1000))) = 105 \<and>
      Motor_write (motorPwm (fst (controlHeartRateBand (fst ctrl_setup) (F32 60 0) (F32 70 0) 50 1000)))
        \<in> set (snd (controlHeartRateBand (fst ctrl_setup) (F32 60 0) (F32 70 0) 50 1000))"
    using control_law [of 50 1000 "fst ctrl_setup" "F32 60 0" "F32 70 0"] due
    by (simp add: Let_def h50 p f32_eval clampT_def cround_def)
  then have a': "motorPwm (fst (controlHeartRateBand (fst ctrl_setup) (F32 60 0) (F32 70 0) 50 1000)) = 105"
    by (simp add: word_uint_eq_iff)
  have b: "motorPwm (fst (controlHeartRateBand (fst ctrl_setup) (F32 60 0) (F32 70 0) 65 1000)) =
      motorPwm (fst ctrl_setup)"
    using control_law [of 65 1000 "fst ctrl_setup" "F32 60 0" "F32 70 0"] due
    by (simp add: Let_def h65 p f32_eval)
  show ?thesis using due a a' b p by (simp add: h50 h65 f32_eval)
qed


text \<open>
  C1, the claim read in exact arithmetic fails.  In training mode (band 70 to 80) the
  ADC values 113, 164, 164, 522, 185, 82, 11, 11 are read before the first control
  action is due, and 144 is read at 1000 ms: the readings are 61, 66, 66, 101, 68, 58,
  51, 51, 64 and the smoothed value is 15691191 / 262144, below 68.5.  The
  single-precision product \<open>Kp * (low - h)\<close> is 35.5, which rounds to 36, and the
  command becomes 106; in exact arithmetic \<open>Kp * (low - h)\<close> is below 35.5 and the
  command of the claim is 105.
\<close>

theorem exact_law_differs:
  "map readBPM [113, 164, 164, 522, 185, 82, 11, 11, 144] =
     [61, 66, 66, 101, 68, 58, 51, 51, 64] \<and>
   uint (motorPwm (ctrlRun (fst ctrl_setup)
     [(Some ''training'', readBPM 113, 100), (None, readBPM 164, 200), (None, readBPM 164, 300),
     (None, readBPM 522, 400), (None, readBPM 185, 500), (None, readBPM 82, 600),
     (None, readBPM 11, 700), (None, readBPM 11, 800)])) = 70 \<and>
   lastCtrlMs (ctrlRun (fst ctrl_setup)
     [(Some ''training'', readBPM 113, 100), (None, readBPM 164, 200), (None, readBPM 164, 300),
     (None, readBPM 522, 400), (None, readBPM 185, 500), (None, readBPM 82, 600),
     (None, readBPM 11, 700), (None, readBPM 11, 800)]) = 0 \<and>
   valof (hrEma (ctrlRun (fst ctrl_setup)
     [(Some ''training'', readBPM 113, 100), (None, readBPM 164, 200), (None, readBPM 164, 300),
     (None, readBPM 522, 400), (None, readBPM 185, 500), (None, readBPM 82, 600),
     (None, readBPM 11, 700), (None, readBPM 11, 800), (None, readBPM 144, 1000)])) = 15691191 / 262144 \<and>
   uint (motorPwm (ctrlRun (fst ctrl_setup)
     [(Some ''training'', readBPM 113, 100), (None, readBPM 164, 200), (None, readBPM 164, 300),
     (None, readBPM 522, 400), (None, readBPM 185, 500), (None, readBPM 82, 600),
     (None, readBPM 11, 700), (None, readBPM 11, 800), (None, readBPM 144, 1000)])) = 106 \<and>
   (15691191 / 262144 :: real) < 70 - 3 / 2 \<and>
   clampT (70 + cround (7 / 2 * (70 - 15691191 / 262144))) 70 255 = 105"
  by (simp add: readBPM_def map_arduino_def cdiv_def ctrl_eval)

lemma float_of_int_small: "\<bar>r\<bar> < 16777216 \<Longrightarrow> float_of_int r = F32 r 0"
  by (simp add: float_of_int_def round24_def bits_over.simps)

text \<open>
  C6, as amended: after the initialisation and any iterations of the loop, a controller
  invocation with a valid reading \<open>r\<close> leaves the smoothed value equal to \<open>r\<close> when
  no valid reading has been processed before; otherwise the new smoothed value is the
  single-precision sum of the single-precision products \<open>a * smoothed\<close> and
  \<open>(1 - a) * r\<close>, each of the three operations rounded to nearest, where \<open>a\<close> is
  the single-precision constant nearest to 0.6, which is 10066330 / 16777216, and
  \<open>1 - a\<close>, computed in single precision, is 6710886 / 16777216.
\<close>

theorem smoothing_bootstrap_then_ema:
  fixes r :: int
  assumes "40 \<le> r" and "r \<le> 200"
  shows "(if \<forall>inp \<in> set inps. \<not> (40 \<le> fst (snd inp) \<and> fst (snd inp) \<le> 200)
      then valof (hrEma (fst (controlHeartRateBand (ctrlRun (fst ctrl_setup) inps) low high r now))) =
             real_of_int r
      else hrEma (fst (controlHeartRateBand (ctrlRun (fst ctrl_setup) inps) low high r now)) =
             fadd (fmul HR_SMOOTH_A (hrEma (ctrlRun (fst ctrl_setup) inps)))
               (fmul (fsub (F32 1 0) HR_SMOOTH_A) (float_of_int r))) \<and>
     valof HR_SMOOTH_A = 10066330 / 16777216 \<and>
     valof (fsub (F32 1 0) HR_SMOOTH_A) = 6710886 / 16777216 \<and>
     valof (float_of_int r) = real_of_int r"
proof -
  have c: "valof HR_SMOOTH_A = 10066330 / 16777216 \<and>
      valof (fsub (F32 1 0) HR_SMOOTH_A) = 6710886 / 16777216 \<and>
      valof (float_of_int r) = real_of_int r"
    using assms by (simp add: A_value(1) one_minus_A float_of_int_small)
  show ?thesis
  proof (cases "\<forall>inp \<in> set inps. \<not> (40 \<le> fst (snd inp) \<and> fst (snd inp) \<le> 200)")
    case True
    have "hrEma (ctrlRun (fst ctrl_setup) inps) = F32 0 0"
      using ctrlRun_hrEma_none_valid [OF True, of "fst ctrl_setup"] by (simp add: setup_hrEma)
    then have "valof (hrEma (fst (controlHeartRateBand (ctrlRun (fst ctrl_setup) inps) low high r now))) =
        real_of_int r"
      using control_hrEma [OF assms, of "ctrlRun (fst ctrl_setup) inps" low high now]
        ema_seed_exact [OF assms]
      by simp
    then show ?thesis using True c by simp
  next
    case False
    then have "\<exists>inp \<in> set inps. 40 \<le> fst (snd inp) \<and> fst (snd inp) \<le> 200" by blast
    then have "0 < valof (hrEma (ctrlRun (fst ctrl_setup) inps))"
      by (rule ctrlRun_hrEma_some_valid)
    then have "\<not> valof (hrEma (ctrlRun (fst ctrl_setup) inps)) \<le> 0" by simp
    then have "hrEma (fst (controlHeartRateBand (ctrlRun (fst ctrl_setup) inps) low high r now)) =
        fadd (fmul HR_SMOOTH_A (hrEma (ctrlRun (fst ctrl_setup) inps)))
          (fmul (fsub (F32 1 0) HR_SMOOTH_A) (float_of_int r))"
      using control_hrEma [OF assms, of "ctrlRun (fst ctrl_setup) inps" low high now]
      by (simp only: if_False)
    then show ?thesis using False c by (simp only: if_False simp_thms)
  qed
qed

theorem smoothing_bootstrap_then_ema_witness:
  "(40 :: int) \<le> 72 \<and> (72 :: int) \<le> 200 \<and>
   valof (hrEma (fst (controlHeartRateBand (ctrlRun (fst ctrl_setup) [(None, 30, 100)])
     (F32 60 0) (F32 70 0) 72 600))) = 72 \<and>
   hrEma (ctrlRun (fst ctrl_setup) [(None, 30, 100), (None, 50, 600)]) = F32 13107200 (- 18) \<and>
   hrEma (fst (controlHeartRateBand (ctrlRun (fst ctrl_setup) [(None, 30, 100), (None, 50, 600)])
     (F32 60 0) (F32 70 0) 72 1100)) =
     fadd (fmul (F32 10066330 (- 24)) (F32 13107200 (- 18))) (fmul (F32 6710886 (- 24)) (F32 72 0)) \<and>
   valof (hrEma (fst (controlHeartRateBand (ctrlRun (fst ctrl_setup) [(None, 30, 100), (None, 50, 600)])
     (F32 60 0) (F32 70 0) 72 1100))) = 3853517 / 65536"
proof -
  have v: "(40 :: int) \<le> 72" "(72 :: int) \<le> 200" by simp_all
  have n: "\<forall>inp \<in> set [(None :: string option, 30 :: int, 100 :: u32)].
      \<not> (40 \<le> fst (snd inp) \<and> fst (snd inp) \<le> 200)" by simp
  have y: "\<not> (\<forall>inp \<in> set [(None :: string option, 30 :: int, 100 :: u32), (None, 50, 600)].
      \<not> (40 \<le> fst (snd inp) \<and> fst (snd inp) \<le> 200))" by simp
  have h: "hrEma (ctrlRun (fst ctrl_setup) [(None, 30, 100), (None, 50, 600)]) = F32 13107200 (- 18)"
    by (simp add: loop_hrEma setup_hrEma f32_eval)
  have f: "float_of_int 72 = F32 72 0" by (simp add: float_of_int_small)
  have a: "valof (hrEma (fst (controlHeartRateBand (ctrlRun (fst ctrl_setup) [(None, 30, 100)])
     (F32 60 0) (F32 70 0) 72 600))) = 72"
    using smoothing_bootstrap_then_ema [OF v, of "[(None, 30, 100)]" "F32 60 0" "F32 70 0" 600] n
    by simp
  have b: "hrEma (fst (controlHeartRateBand (ctrlRun (fst ctrl_setup) [(None, 30, 100), (None, 50, 600)])
     (F32 60 0) (F32 70 0) 72 1100)) =
     fadd (fmul (F32 10066330 (- 24)) (F32 13107200 (- 18))) (fmul (F32 6710886 (- 24)) (F32 72 0))"
    using smoothing_bootstrap_then_ema [OF v, of "[(None, 30, 100), (None, 50, 600)]"
        "F32 60 0" "F32 70 0" 1100] y
    by (simp only: if_False h f one_minus_A [unfolded HR_SMOOTH_A_def] HR_SMOOTH_A_def)
  have e: "valof (fadd (fmul (F32 10066330 (- 24)) (F32 13107200 (- 18)))
      (fmul (F32 6710886 (- 24)) (F32 72 0))) = 3853517 / 65536"
    by (simp add: f32_eval)
  show ?thesis using v a h b e by simp
qed

text \<open>
  C6, the claim read in exact arithmetic fails: after the readings 50 (ADC value 0) and
  72 (ADC value 226) the smoothed value is 3853517 / 65536, while
  \<open>0.6 * 50 + 0.4 * 72\<close> is 294 / 5.
\<close>

theorem ema_is_rounded:
  "readBPM 0 = 50 \<and> readBPM 226 = 72 \<and>
   valof (hrEma (ctrlRun (fst ctrl_setup) [(Some ''diet'', readBPM 0, 100)])) = 50 \<and>
   valof (hrEma (ctrlRun (fst ctrl_setup)
     [(Some ''diet'', readBPM 0, 100), (None, readBPM 226, 200)])) = 3853517 / 65536 \<and>
   (6 / 10 * 50 + (1 - 6 / 10) * 72 :: real) = 294 / 5 \<and>
   (3853517 / 65536 :: real) \<noteq> 294 / 5"
  by (simp add: readBPM_def map_arduino_def cdiv_def ctrl_eval)

text \<open>
  C7: a controller invocation with a reading below 40 or above 200 returns the state
  it was given, so the smoothed value, the time of the last control action and the
  command are unchanged; nothing is written to the motor, and the only output is the
  warning with the reading.
\<close>

theorem invalid_reading_is_discarded:
  assumes "bpm < 40 \<or> 200 < bpm"
  shows "controlHeartRateBand s low high bpm now = (s, [Warn_invalid bpm])"
  using assms by (rule control_invalid)

theorem invalid_reading_is_discarded_witness:
  "((30 :: int) < 40 \<or> (200 :: int) < 30) \<and>
   controlHeartRateBand (fst ctrl_setup) (F32 60 0) (F32 70 0) 30 5000 =
     (fst ctrl_setup, [Warn_invalid 30]) \<and>
   ((201 :: int) < 40 \<or> (200 :: int) < 201) \<and>
   controlHeartRateBand (fst ctrl_setup) (F32 70 0) (F32 80 0) 201 5000 =
     (fst ctrl_setup, [Warn_invalid 201])"
proof -
  have a: "(30 :: int) < 40 \<or> (200 :: int) < 30" by simp
  have b: "(201 :: int) < 40 \<or> (200 :: int) < 201" by simp
  show ?thesis
    using a b invalid_reading_is_discarded [OF a, of "fst ctrl_setup" "F32 60 0" "F32 70 0" 5000]
      invalid_reading_is_discarded [OF b, of "fst ctrl_setup" "F32 70 0" "F32 80 0" 5000]
    by blast
qed

subsection \<open>The placeholder BPM source\<close>

lemma readBPM_eq:
  assumes "0 \<le> raw"
  shows "readBPM raw = raw * 100 div 1023 + 50"
proof -
  have "0 \<le> raw * 100" using assms by simp
  then have "cdiv (raw * 100) 1023 = raw * 100 div 1023"
    by (cases "raw * 100 = 0") (simp_all add: cdiv_def sgn_if)
  then show ?thesis by (simp add: readBPM_def map_arduino_def)
qed

lemma readBPM_range:
  assumes "0 \<le> raw" and "raw \<le> 1023"
  shows "50 \<le> readBPM raw" and "readBPM raw \<le> 150"
proof -
  have "0 \<le> raw * 100 div 1023" using assms(1) by (simp add: pos_imp_zdiv_nonneg_iff)
  then show "50 \<le> readBPM raw" using readBPM_eq [OF assms(1)] by simp
  have "raw * 100 \<le> 1023 * 100" using assms(2) by simp
  then have "raw * 100 div 1023 \<le> 1023 * 100 div 1023" by (rule zdiv_mono1) simp
  then show "readBPM raw \<le> 150" using readBPM_eq [OF assms(1)] by simp
qed

text \<open>
  C9: for an ADC value in [0, 1023] \<open>readBPM\<close> returns a value in [50, 150], strictly
  inside [40, 200]; a controller invocation fed by it does not take the branch of the
  invalid reading: it emits no warning and smooths the reading.
\<close>

theorem readBPM_never_invalid:
  assumes "0 \<le> raw" and "raw \<le> 1023"
  shows "50 \<le> readBPM raw \<and> readBPM raw \<le> 150 \<and> 40 < readBPM raw \<and> readBPM raw < 200 \<and>
    (\<forall>b. Warn_invalid b \<notin> set (snd (controlHeartRateBand s low high (readBPM raw) now))) \<and>
    hrEma (fst (controlHeartRateBand s low high (readBPM raw) now)) =
      fadd (fmul HR_SMOOTH_A
              (if valof (hrEma s) \<le> 0 then float_of_int (readBPM raw) else hrEma s))
        (fmul (fsub (F32 1 0) HR_SMOOTH_A) (float_of_int (readBPM raw)))"
proof -
  note r = readBPM_range [OF assms]
  have v: "40 \<le> readBPM raw" "readBPM raw \<le> 200" using r by simp_all
  have w: "Warn_invalid b \<notin> set (snd (controlHeartRateBand s low high (readBPM raw) now))" for b
    using v
    by (simp add: controlHeartRateBand_def HR_VALID_MIN_def HR_VALID_MAX_def Let_def motorWrite_def)
  have h: "hrEma (fst (controlHeartRateBand s low high (readBPM raw) now)) =
      fadd (fmul HR_SMOOTH_A
              (if valof (hrEma s) \<le> 0 then float_of_int (readBPM raw) else hrEma s))
        (fmul (fsub (F32 1 0) HR_SMOOTH_A) (float_of_int (readBPM raw)))"
    using control_hrEma [OF v, of s low high now] .
  show ?thesis using r w h by simp
qed

theorem readBPM_never_invalid_witness:
  "(0 :: int) \<le> 1023 \<and> (1023 :: int) \<le> 1023 \<and> readBPM 1023 = 150 \<and> readBPM 0 = 50 \<and>
   40 < readBPM 1023 \<and> readBPM 1023 < 200 \<and>
   snd (controlHeartRateBand (fst ctrl_setup) (F32 60 0) (F32 70 0) (readBPM 1023) 400) =
     [Status_line 150 (F32 9830400 (- 16)) 70] \<and>
   valof (F32 9830400 (- 16)) = 150 \<and>
   Warn_invalid 150 \<notin>
     set (snd (controlHeartRateBand (fst ctrl_setup) (F32 60 0) (F32 70 0) (readBPM 1023) 400))"
proof -
  have a: "(0 :: int) \<le> 1023" "(1023 :: int) \<le> 1023" by simp_all
  have e: "readBPM 1023 = 150" "readBPM 0 = 50"
    by (simp_all add: readBPM_def map_arduino_def cdiv_def)
  have s: "snd (controlHeartRateBand (fst ctrl_setup) (F32 60 0) (F32 70 0) (readBPM 1023) 400) =
      [Status_line 150 (F32 9830400 (- 16)) 70]"
    unfolding e by (simp add: ctrl_eval)
  have x: "valof (F32 9830400 (- 16)) = 150" by simp
  from readBPM_never_invalid [OF a, of "fst ctrl_setup" "F32 60 0" "F32 70 0" 400]
  have "40 < readBPM 1023 \<and> readBPM 1023 < 200 \<and>
    Warn_invalid 150 \<notin>
      set (snd (controlHeartRateBand (fst ctrl_setup) (F32 60 0) (F32 70 0) (readBPM 1023) 400))"
    by blast
  then show ?thesis using a e s x by blast
qed

subsection \<open>Mode input\<close>

lemma control_setMode:
  "setMode (fst (controlHeartRateBand s low high bpm now)) = setMode s"
  by (simp add: controlHeartRateBand_def Let_def motorWrite_def)

lemma runMode_setMode: "setMode (fst (runMode s bpm now)) = setMode s"
  by (simp add: runMode_def dietRun_def trainingRun_def control_setMode Let_def)

lemma loop_snd:
  "snd (loop s (serial, bpm, now)) =
     snd (modeInput s serial) @ snd (runMode (fst (modeInput s serial)) bpm now)"
  by (simp add: loop_def split: prod.splits)

lemma runMode_idle:
  assumes "setMode s = []"
  shows "motorPwm (fst (runMode s bpm now)) = motorPwm s"
    and "\<exists>h. snd (runMode s bpm now) = [Idle_line bpm h (motorPwm s)]"
  using assms by (simp_all add: runMode_def Let_def)

text \<open>
  C8, as amended: a line that trims to \<open>diet\<close> or to \<open>training\<close> selects that mode;
  every other line, the empty line included, is rejected with the error message and
  sets the mode to the empty string, under which the loop takes the idle branch and
  leaves the command alone; when no input is available the mode is unchanged; and the
  rest of the loop iteration does not change the mode.
\<close>

theorem mode_input:
  "(trim line = ''diet'' \<longrightarrow>
      modeInput s (Some line) = (s\<lparr>setMode := ''diet''\<rparr>, [Mode_changed ''diet''])) \<and>
   (trim line = ''training'' \<longrightarrow>
      modeInput s (Some line) = (s\<lparr>setMode := ''training''\<rparr>, [Mode_changed ''training''])) \<and>
   (trim line \<noteq> ''diet'' \<and> trim line \<noteq> ''training'' \<longrightarrow>
      modeInput s (Some line) = (s\<lparr>setMode := []\<rparr>, [Mode_rejected]) \<and>
      motorPwm (fst (loop s (Some line, bpm, now))) = motorPwm s \<and>
      (\<exists>h. snd (loop s (Some line, bpm, now)) = [Mode_rejected, Idle_line bpm h (motorPwm s)])) \<and>
   modeInput s None = (s, []) \<and>
   setMode (fst (loop s (serial, bpm, now))) = setMode (fst (modeInput s serial))"
proof -
  have 1: "trim line = ''diet'' \<longrightarrow>
      modeInput s (Some line) = (s\<lparr>setMode := ''diet''\<rparr>, [Mode_changed ''diet''])"
    by (simp add: modeInput_def Let_def)
  have 2: "trim line = ''training'' \<longrightarrow>
      modeInput s (Some line) = (s\<lparr>setMode := ''training''\<rparr>, [Mode_changed ''training''])"
    by (simp add: modeInput_def Let_def)
  have 3: "modeInput s (Some line) = (s\<lparr>setMode := []\<rparr>, [Mode_rejected]) \<and>
      motorPwm (fst (loop s (Some line, bpm, now))) = motorPwm s \<and>
      (\<exists>h. snd (loop s (Some line, bpm, now)) = [Mode_rejected, Idle_line bpm h (motorPwm s)])"
    if r: "trim line \<noteq> ''diet'' \<and> trim line \<noteq> ''training''"
  proof -
    have m: "modeInput s (Some line) = (s\<lparr>setMode := []\<rparr>, [Mode_rejected])"
      using r by (simp add: modeInput_def Let_def)
    have i: "setMode (s\<lparr>setMode := []\<rparr>) = []" by simp
    obtain h where h: "snd (runMode (s\<lparr>setMode := []\<rparr>) bpm now) = [Idle_line bpm h (motorPwm s)]"
      using runMode_idle(2) [OF i, of bpm now] by auto
    have p: "motorPwm (fst (runMode (s\<lparr>setMode := []\<rparr>) bpm now)) = motorPwm s"
      using runMode_idle(1) [OF i, of bpm now] by simp
    have "snd (loop s (Some line, bpm, now)) = [Mode_rejected, Idle_line bpm h (motorPwm s)]"
      using m h by (simp add: loop_snd)
    moreover have "motorPwm (fst (loop s (Some line, bpm, now))) = motorPwm s"
      using m p by (simp add: loop_fst)
    ultimately show ?thesis using m by blast
  qed
  have 4: "modeInput s None = (s, [])" by (simp add: modeInput_def Let_def)
  have 5: "setMode (fst (loop s (serial, bpm, now))) = setMode (fst (modeInput s serial))"
    by (simp only: loop_fst runMode_setMode)
  show ?thesis using 1 2 3 4 5 by blast
qed

theorem mode_input_witness:
  "trim ''diet'' = ''diet'' \<and> trim '' training'' = ''training'' \<and>
   trim [] \<noteq> ''diet'' \<and> trim [] \<noteq> ''training'' \<and>
   modeInput (fst ctrl_setup) (Some ''diet'') =
     ((fst ctrl_setup)\<lparr>setMode := ''diet''\<rparr>, [Mode_changed ''diet'']) \<and>
   modeInput (fst ctrl_setup) (Some '' training'') =
     ((fst ctrl_setup)\<lparr>setMode := ''training''\<rparr>, [Mode_changed ''training'']) \<and>
   modeInput ((fst ctrl_setup)\<lparr>setMode := ''diet''\<rparr>) (Some []) =
     ((fst ctrl_setup)\<lparr>setMode := []\<rparr>, [Mode_rejected]) \<and>
   motorPwm (fst (loop ((fst ctrl_setup)\<lparr>setMode := ''diet''\<rparr>) (Some [], 50, 2000))) = 70"
proof -
  have t: "trim ''diet'' = ''diet''" "trim '' training'' = ''training''"
    "trim [] \<noteq> ''diet'' \<and> trim [] \<noteq> ''training''"
    by (simp_all add: trim_def isspace_def)
  have p: "motorPwm ((fst ctrl_setup)\<lparr>setMode := ''diet''\<rparr>) = 70"
    by (simp add: ctrl_setup_def motorWrite_def PWM_MIN_def)
  have a: "modeInput (fst ctrl_setup) (Some ''diet'') =
     ((fst ctrl_setup)\<lparr>setMode := ''diet''\<rparr>, [Mode_changed ''diet''])"
    using mode_input [of "''diet''" "fst ctrl_setup"] t(1) by blast
  have b: "modeInput (fst ctrl_setup) (Some '' training'') =
     ((fst ctrl_setup)\<lparr>setMode := ''training''\<rparr>, [Mode_changed ''training''])"
    using mode_input [of "'' training''" "fst ctrl_setup"] t(2) by blast
  have c: "modeInput ((fst ctrl_setup)\<lparr>setMode := ''diet''\<rparr>) (Some []) =
     ((fst ctrl_setup)\<lparr>setMode := ''diet'', setMode := []\<rparr>, [Mode_rejected]) \<and>
     motorPwm (fst (loop ((fst ctrl_setup)\<lparr>setMode := ''diet''\<rparr>) (Some [], 50, 2000))) =
       motorPwm ((fst ctrl_setup)\<lparr>setMode := ''diet''\<rparr>)"
    using mode_input [of "[]" "(fst ctrl_setup)\<lparr>setMode := ''diet''\<rparr>" 50 2000] t(3) by blast
  show ?thesis using t a b c p by simp
qed

text \<open>
  C8, the claim as stated fails: with the mode set to \<open>diet\<close>, an empty input line
  is answered with the error message and sets the mode to the empty string.
\<close>

theorem empty_line_resets_mode:
  "setMode (ctrlRun (fst ctrl_setup) [(Some ''diet'', 60, 500)]) = ''diet'' \<and>
   setMode (ctrlRun (fst ctrl_setup) [(Some ''diet'', 60, 500), (Some [], 60, 600)]) = [] \<and>
   setMode (ctrlRun (fst ctrl_setup) [(Some ''diet'', 60, 500), (Some [], 60, 600)]) \<noteq> ''diet'' \<and>
   modeInput ((fst ctrl_setup)\<lparr>setMode := ''diet''\<rparr>) (Some []) =
     ((fst ctrl_setup)\<lparr>setMode := []\<rparr>, [Mode_rejected])"
  by (simp add: loop_fst runMode_setMode modeInput_def Let_def trim_def isspace_def)

end
